theory Spec2Isabelle
  imports Main "HOL-Library.Sublist"
begin

section \<open>The diarization runner of \<^verbatim>\<open>src/python/diarize.py\<close>\<close>

text \<open>
  The script is glue around three collaborators that are not part of the repository: the
  process environment, the pyannote pipeline and the file system with Python's
  \<^verbatim>\<open>json.dump\<close>.  The runner itself, \<^verbatim>\<open>diarize_audio\<close>, is embedded line by line; the
  collaborators are fields of a \<open>world\<close> record, so that every theorem holds for whatever they
  return.  Exceptions are values of a type \<open>'e\<close> that the runner never inspects; numbers are
  values of a type \<open>'f\<close> (Python floats) that the runner never computes with.  Python strings
  are \<open>string\<close>s, that is, sequences of code points below 256.
\<close>

subsection \<open>Data\<close>

text \<open>The interval of a track: pyannote's \<^verbatim>\<open>Segment\<close>, read as \<^verbatim>\<open>turn.start\<close> and \<^verbatim>\<open>turn.end\<close>.\<close>

record 'f turn =
  turn_start :: 'f
  turn_end :: 'f

text \<open>The values stored in a segment dictionary, and the dictionary in insertion order.\<close>

datatype 'f pyval = PyFloat 'f | PyStr string

type_synonym 'f segment = "(string \<times> 'f pyval) list"

text \<open>
  What \<^verbatim>\<open>diarization.itertracks(yield_label=True)\<close> does when it is iterated: it yields
  the triples of \<open>itertracks\<close> in this order and then either stops or raises \<open>iter_error\<close>.
\<close>

datatype ('e, 'f, 't) annotation =
  Annotation (itertracks: "('f turn \<times> 't \<times> string) list") (iter_error: "'e option")

type_synonym ('e, 'f, 't) pipeline = "string \<Rightarrow> 'e + ('e, 'f, 't) annotation"

text \<open>
  The collaborators.  \<open>write_error p = Some (n, e)\<close> means that writing to \<open>p\<close> raises \<open>e\<close>
  once \<open>n\<close> characters have reached the file.
\<close>

record ('e, 'f, 't) world =
  environ :: "string \<rightharpoonup> string"
  from_pretrained :: "string \<Rightarrow> string option \<Rightarrow> 'e + ('e, 'f, 't) pipeline"
  float_repr :: "'f \<Rightarrow> string"
  open_error :: "string \<Rightarrow> 'e option"
  write_error :: "string \<Rightarrow> (nat \<times> 'e) option"

text \<open>The observable effects of a run: the calls and prints in order, and the files.\<close>

datatype event =
    Print string
  | FromPretrained string "string option"
  | CallPipeline string
  | Itertracks
  | OpenWrite string

record state =
  trace :: "event list"
  files :: "string \<rightharpoonup> string"

definition emit :: "event \<Rightarrow> state \<Rightarrow> state" where
  "emit ev s = s\<lparr>trace := trace s @ [ev]\<rparr>"

definition stdout :: "state \<Rightarrow> string list" where
  "stdout s = concat (map (\<lambda>ev. case ev of Print l \<Rightarrow> [l] | _ \<Rightarrow> []) (trace s))"

subsection \<open>Python's \<^verbatim>\<open>json.dump(segments, f, indent=2)\<close>\<close>

definition digit_char :: "nat \<Rightarrow> char" where
  "digit_char d = ''0123456789abcdef'' ! d"

text \<open>\<^verbatim>\<open>'\\u{0:04x}'.format(n)\<close> without the backslash and the u.\<close>

definition hex4 :: "nat \<Rightarrow> string" where
  "hex4 n = [digit_char (n div 4096 mod 16), digit_char (n div 256 mod 16),
             digit_char (n div 16 mod 16), digit_char (n mod 16)]"

text \<open>
  The replacement of one character in \<^verbatim>\<open>py_encode_basestring_ascii\<close>: the pattern
  \<^verbatim>\<open>([\\"]|[^\ -~])\<close> matches the backslash, the double quote and everything outside the
  printable ASCII range; \<^verbatim>\<open>ESCAPE_DCT\<close> has the short escapes.
\<close>

definition escape_char :: "char \<Rightarrow> string" where
  "escape_char c =
     (if c = CHR 0x5C then [CHR 0x5C, CHR 0x5C]
      else if c = CHR 0x22 then [CHR 0x5C, CHR 0x22]
      else if c = CHR 0x08 then [CHR 0x5C, CHR ''b'']
      else if c = CHR 0x0C then [CHR 0x5C, CHR ''f'']
      else if c = CHR 0x0A then [CHR 0x5C, CHR ''n'']
      else if c = CHR 0x0D then [CHR 0x5C, CHR ''r'']
      else if c = CHR 0x09 then [CHR 0x5C, CHR ''t'']
      else if (32::nat) \<le> of_char c \<and> (of_char c :: nat) \<le> 126 then [c]
      else [CHR 0x5C, CHR ''u''] @ hex4 (of_char c))"

definition py_encode_basestring_ascii :: "string \<Rightarrow> string" where
  "py_encode_basestring_ascii s = [CHR 0x22] @ concat (map escape_char s) @ [CHR 0x22]"

text \<open>\<^verbatim>\<open>'\n' + _indent * _current_indent_level\<close> with \<^verbatim>\<open>_indent = ' ' * 2\<close>.\<close>

definition newline_indent :: "nat \<Rightarrow> string" where
  "newline_indent level = CHR 0x0A # concat (replicate level ''  '')"

fun encode_value :: "('f \<Rightarrow> string) \<Rightarrow> 'f pyval \<Rightarrow> string" where
  "encode_value floatstr (PyStr s) = py_encode_basestring_ascii s"
| "encode_value floatstr (PyFloat x) = floatstr x"

text \<open>The loop of \<^verbatim>\<open>_iterencode_dict\<close>; \<open>first\<close> is the loop's flag.\<close>

fun iterencode_items :: "('f \<Rightarrow> string) \<Rightarrow> nat \<Rightarrow> bool \<Rightarrow> 'f segment \<Rightarrow> string" where
  "iterencode_items floatstr level first [] = []"
| "iterencode_items floatstr level first ((key, v) # items) =
     (if first then [] else '','' @ newline_indent level)
     @ py_encode_basestring_ascii key @ '': '' @ encode_value floatstr v
     @ iterencode_items floatstr level False items"

definition iterencode_dict :: "('f \<Rightarrow> string) \<Rightarrow> 'f segment \<Rightarrow> nat \<Rightarrow> string" where
  "iterencode_dict floatstr dct level =
     (if dct = [] then ''{}''
      else ''{'' @ newline_indent (level + 1)
           @ iterencode_items floatstr (level + 1) True dct
           @ newline_indent level @ ''}'')"

text \<open>The loop of \<^verbatim>\<open>_iterencode_list\<close>; \<open>buf\<close> is the loop's variable.\<close>

fun iterencode_elems :: "('f \<Rightarrow> string) \<Rightarrow> nat \<Rightarrow> string \<Rightarrow> 'f segment list \<Rightarrow> string" where
  "iterencode_elems floatstr level buf [] = []"
| "iterencode_elems floatstr level buf (v # lst) =
     buf @ iterencode_dict floatstr v level
     @ iterencode_elems floatstr level ('','' @ newline_indent level) lst"

definition iterencode_list :: "('f \<Rightarrow> string) \<Rightarrow> 'f segment list \<Rightarrow> nat \<Rightarrow> string" where
  "iterencode_list floatstr lst level =
     (if lst = [] then ''[]''
      else iterencode_elems floatstr (level + 1) (''['' @ newline_indent (level + 1)) lst
           @ newline_indent level @ '']'')"

text \<open>The text that \<^verbatim>\<open>json.dump\<close> hands to \<^verbatim>\<open>fp.write\<close>, chunk after chunk.\<close>

definition json_dump :: "('f \<Rightarrow> string) \<Rightarrow> 'f segment list \<Rightarrow> string" where
  "json_dump floatstr segments = iterencode_list floatstr segments 0"

subsection \<open>The runner\<close>

text \<open>\<^verbatim>\<open>str(n)\<close> for the length of a list.\<close>

fun str_nat :: "nat \<Rightarrow> string" where
  "str_nat n = (if n < 10 then [digit_char n] else str_nat (n div 10) @ [digit_char (n mod 10)])"

declare str_nat.simps [simp del]

text \<open>Python's truth value of \<^verbatim>\<open>os.environ.get(...)\<close>: \<^verbatim>\<open>None\<close> and the empty string are false.\<close>

fun truthy :: "string option \<Rightarrow> bool" where
  "truthy None = False"
| "truthy (Some v) = (v \<noteq> [])"

text \<open>The body of the \<^verbatim>\<open>for\<close> loop: the dictionary literal appended for one triple.\<close>

definition speaker_segment :: "'f turn \<Rightarrow> string \<Rightarrow> 'f segment" where
  "speaker_segment turn speaker =
     [(''start'', PyFloat (turn_start turn)),
      (''end'', PyFloat (turn_end turn)),
      (''speaker'', PyStr (''SPEAKER_'' @ speaker))]"

fun collect :: "('f turn \<times> 't \<times> string) list \<Rightarrow> 'f segment list \<Rightarrow> 'f segment list" where
  "collect [] segments = segments"
| "collect ((turn, _, speaker) # rest) segments =
     collect rest (segments @ [speaker_segment turn speaker])"

text \<open>
  \<^verbatim>\<open>with open(output_file, "w") as f: json.dump(segments, f, indent=2)\<close>: opening creates or
  truncates the file, then the text is written; an error while writing leaves the part
  that was written.
\<close>

definition write_json ::
  "('e, 'f, 't) world \<Rightarrow> string \<Rightarrow> 'f segment list \<Rightarrow> state \<Rightarrow> ('e + unit) \<times> state" where
  "write_json w output_file segments s =
     (let s1 = emit (OpenWrite output_file) s;
          text = json_dump (float_repr w) segments
      in case open_error w output_file of
           Some e \<Rightarrow> (Inl e, s1)
         | None \<Rightarrow>
             (case write_error w output_file of
                None \<Rightarrow> (Inr (), s1\<lparr>files := (files s1)(output_file \<mapsto> text)\<rparr>)
              | Some (n, e) \<Rightarrow>
                  if n < length text
                  then (Inl e, s1\<lparr>files := (files s1)(output_file \<mapsto> take n text)\<rparr>)
                  else (Inr (), s1\<lparr>files := (files s1)(output_file \<mapsto> text)\<rparr>)))"

definition model_name :: string where
  "model_name = ''pyannote/speaker-diarization@2.1''"

definition warning_lines :: "string list" where
  "warning_lines =
     [''WARNING: HUGGINGFACE_TOKEN not set in environment. Diarization may fail.'',
      ''Please set the HUGGINGFACE_TOKEN environment variable with a valid HuggingFace token.'']"

definition diarize_audio ::
  "('e, 'f, 't) world \<Rightarrow> string \<Rightarrow> string \<Rightarrow> state \<Rightarrow> ('e + unit) \<times> state" where
  "diarize_audio w audio_file output_file s0 =
     (let s1 = emit (Print (''Starting diarization for '' @ audio_file)) s0;
          access_token = environ w ''HUGGINGFACE_TOKEN'';
          s2 = (if \<not> truthy access_token then fold (\<lambda>l. emit (Print l)) warning_lines s1 else s1);
          s3 = emit (FromPretrained model_name access_token) s2
      in case from_pretrained w model_name access_token of
           Inl e \<Rightarrow> (Inl e, s3)
         | Inr pipeline \<Rightarrow>
             (let s4 = emit (CallPipeline audio_file) s3
              in case pipeline audio_file of
                   Inl e \<Rightarrow> (Inl e, s4)
                 | Inr diarization \<Rightarrow>
                     (let s5 = emit Itertracks s4;
                          segments = collect (itertracks diarization) []
                      in case iter_error diarization of
                           Some e \<Rightarrow> (Inl e, s5)
                         | None \<Rightarrow>
                             (case write_json w output_file segments s5 of
                                (Inl e, s6) \<Rightarrow> (Inl e, s6)
                              | (Inr u, s6) \<Rightarrow>
                                  (Inr (),
                                   emit (Print (''Results saved to '' @ output_file))
                                     (emit (Print (''Diarization complete. Found ''
                                                   @ str_nat (length segments)
                                                   @ '' speaker segments.'')) s6))))))"

text \<open>
  The script's entry point after \<^verbatim>\<open>argparse\<close> has delivered both arguments: an exception
  that leaves \<^verbatim>\<open>diarize_audio\<close> is not caught, and the interpreter exits with status 1.
\<close>

definition main :: "('e, 'f, 't) world \<Rightarrow> string \<Rightarrow> string \<Rightarrow> state \<Rightarrow> nat \<times> state" where
  "main w audio output s =
     (case diarize_audio w audio output s of
        (Inl e, s') \<Rightarrow> (1, s')
      | (Inr u, s') \<Rightarrow> (0, s'))"

subsection \<open>Properties stated below, and a stubbed pipeline to run\<close>

definition preamble :: "('e, 'f, 't) world \<Rightarrow> string \<Rightarrow> event list" where
  "preamble w audio =
     Print (''Starting diarization for '' @ audio)
     # (if truthy (environ w ''HUGGINGFACE_TOKEN'') then [] else map Print warning_lines)
     @ [FromPretrained model_name (environ w ''HUGGINGFACE_TOKEN'')]"

definition well_ordered :: "('f::ord) segment \<Rightarrow> bool" where
  "well_ordered seg =
     (case (map_of seg ''start'', map_of seg ''end'') of
        (Some (PyFloat a), Some (PyFloat b)) \<Rightarrow> a \<le> b
      | _ \<Rightarrow> False)"

definition tenths_repr :: "nat \<Rightarrow> string" where
  "tenths_repr n = str_nat (n div 10) @ ''.'' @ str_nat (n mod 10)"

definition stub_tracks :: "(nat turn \<times> nat \<times> string) list" where
  "stub_tracks =
     [(\<lparr>turn_start = 0, turn_end = 12\<rparr>, 0, ''A''),
      (\<lparr>turn_start = 12, turn_end = 34\<rparr>, 1, ''B'')]"

definition stub_pipeline :: "(string, nat, nat) pipeline" where
  "stub_pipeline audio =
     (if audio = ''missing.wav'' then Inl ''FileNotFoundError''
      else if audio = ''silence.wav'' then Inr (Annotation [] None)
      else Inr (Annotation stub_tracks None))"

definition stub_world :: "(string, nat, nat) world" where
  "stub_world =
     \<lparr>environ = [''HUGGINGFACE_TOKEN'' \<mapsto> ''hf_abc''],
      from_pretrained = (\<lambda>name token.
         if token = None then Inl ''Unauthorized'' else Inr stub_pipeline),
      float_repr = tenths_repr,
      open_error = (\<lambda>p. None),
      write_error = (\<lambda>p. None)\<rparr>"

text \<open>The events a run adds to the trace.\<close>

definition new_events :: "state \<Rightarrow> state \<Rightarrow> event list" where
  "new_events s s' = drop (length (trace s)) (trace s')"

definition init_state :: state where
  "init_state = \<lparr>trace = [], files = Map.empty\<rparr>"

definition other_world :: "(string, nat, nat) world" where
  "other_world =
     \<lparr>environ = [''HUGGINGFACE_TOKEN'' \<mapsto> ''hf_xyz''],
      from_pretrained = (\<lambda>name token. Inr (\<lambda>audio. Inr (Annotation stub_tracks None))),
      float_repr = tenths_repr,
      open_error = (\<lambda>p. None),
      write_error = (\<lambda>p. None)\<rparr>"

subsection \<open>A reader for JSON texts\<close>

text \<open>
  The yardstick for ``valid JSON'' and for reading a file back: a reader that consumes the
  text character by character, with the containers that are still open on a stack.  With
  \<open>py = False\<close> it reads the grammar of RFC 8259.  With \<open>py = True\<close> it reads what Python's
  \<^verbatim>\<open>json.load\<close> reads in its default configuration: the same grammar, and in the place of
  a value also the names \<^verbatim>\<open>NaN\<close>, \<^verbatim>\<open>Infinity\<close> and \<^verbatim>\<open>-Infinity\<close> (the scanner's
  \<^verbatim>\<open>parse_constant\<close> cases).  It builds what \<^verbatim>\<open>json.load\<close> builds, a number being kept as
  its literal text.
\<close>

datatype json =
    JNull
  | JBool bool
  | JNumber string
  | JString "nat list"
  | JArray "json list"
  | JObject "(nat list \<times> json) list"

text \<open>An open container: its elements or members so far (latest first), and the key read last.\<close>

datatype frame =
    InArray "json list"
  | InObject "(nat list \<times> json) list" "nat list"

datatype numstate = NMinus | NZero | NInt | NDot | NFrac | NExp | NExpSign | NExpDigits

text \<open>
  Where the reader is: before a value, right after an opening bracket or brace, before a
  key, before the colon, after a value inside a container, after the whole document, or
  inside a string (for a key or a value; with the code points so far, latest first, and
  whether the latest is a high surrogate written as an escape), an escape, a number or a
  literal name.
\<close>

datatype mode =
    Value
  | ValueOrEnd
  | KeyOrEnd
  | Key
  | Colon
  | After
  | Done json
  | Str bool "nat list" bool
  | Esc bool "nat list" bool
  | Uni bool "nat list" bool nat nat
  | Num numstate string
  | Lit string json

type_synonym reader = "mode \<times> frame list"

definition is_ws :: "char \<Rightarrow> bool" where
  "is_ws c = (c = CHR '' '' \<or> c = CHR 0x09 \<or> c = CHR 0x0A \<or> c = CHR 0x0D)"

definition is_digit :: "char \<Rightarrow> bool" where
  "is_digit c = ((48::nat) \<le> of_char c \<and> (of_char c :: nat) \<le> 57)"

definition num_start :: "char \<Rightarrow> numstate option" where
  "num_start c =
     (if c = CHR ''-'' then Some NMinus
      else if c = CHR ''0'' then Some NZero
      else if is_digit c then Some NInt
      else None)"

fun num_step :: "numstate \<Rightarrow> char \<Rightarrow> numstate option" where
  "num_step NMinus c =
     (if c = CHR ''0'' then Some NZero else if is_digit c then Some NInt else None)"
| "num_step NZero c =
     (if c = CHR ''.'' then Some NDot
      else if c = CHR ''e'' \<or> c = CHR ''E'' then Some NExp else None)"
| "num_step NInt c =
     (if is_digit c then Some NInt
      else if c = CHR ''.'' then Some NDot
      else if c = CHR ''e'' \<or> c = CHR ''E'' then Some NExp else None)"
| "num_step NDot c = (if is_digit c then Some NFrac else None)"
| "num_step NFrac c =
     (if is_digit c then Some NFrac
      else if c = CHR ''e'' \<or> c = CHR ''E'' then Some NExp else None)"
| "num_step NExp c =
     (if c = CHR ''+'' \<or> c = CHR ''-'' then Some NExpSign
      else if is_digit c then Some NExpDigits else None)"
| "num_step NExpSign c = (if is_digit c then Some NExpDigits else None)"
| "num_step NExpDigits c = (if is_digit c then Some NExpDigits else None)"

fun num_final :: "numstate \<Rightarrow> bool" where
  "num_final NZero = True"
| "num_final NInt = True"
| "num_final NFrac = True"
| "num_final NExpDigits = True"
| "num_final _ = False"

fun num_run :: "numstate \<Rightarrow> string \<Rightarrow> numstate option" where
  "num_run q [] = Some q"
| "num_run q (c # cs) = (case num_step q c of None \<Rightarrow> None | Some q' \<Rightarrow> num_run q' cs)"

text \<open>The texts of the grammar's \<^verbatim>\<open>number\<close>.\<close>

definition json_number :: "string \<Rightarrow> bool" where
  "json_number s =
     (case s of
        [] \<Rightarrow> False
      | c # cs \<Rightarrow>
          (case num_start c of
             None \<Rightarrow> False
           | Some q \<Rightarrow> (case num_run q cs of None \<Rightarrow> False | Some q' \<Rightarrow> num_final q')))"

definition unescape :: "char \<Rightarrow> nat option" where
  "unescape c =
     (if c = CHR 0x22 then Some 0x22
      else if c = CHR 0x5C then Some 0x5C
      else if c = CHR ''/'' then Some 0x2F
      else if c = CHR ''b'' then Some 0x08
      else if c = CHR ''f'' then Some 0x0C
      else if c = CHR ''n'' then Some 0x0A
      else if c = CHR ''r'' then Some 0x0D
      else if c = CHR ''t'' then Some 0x09
      else None)"

definition hex_value :: "char \<Rightarrow> nat option" where
  "hex_value c =
     (let n = (of_char c :: nat)
      in if 48 \<le> n \<and> n \<le> 57 then Some (n - 48)
         else if 97 \<le> n \<and> n \<le> 102 then Some (n - 87)
         else if 65 \<le> n \<and> n \<le> 70 then Some (n - 55)
         else None)"

definition is_high_surrogate :: "nat \<Rightarrow> bool" where
  "is_high_surrogate u = (0xD800 \<le> u \<and> u \<le> 0xDBFF)"

text \<open>
  The code point of a \<^verbatim>\<open>\uXXXX\<close> escape joins the code points read so far; a low surrogate
  right after an escaped high surrogate is combined with it into one code point.
\<close>

fun push_unit :: "bool \<Rightarrow> nat \<Rightarrow> nat list \<Rightarrow> nat list" where
  "push_unit True u (h # acc) =
     (if 0xDC00 \<le> u \<and> u \<le> 0xDFFF
      then (0x10000 + (h - 0xD800) * 1024 + (u - 0xDC00)) # acc
      else u # h # acc)"
| "push_unit high u acc = u # acc"

text \<open>A complete value goes to the container that is open, or is the document.\<close>

fun deliver :: "json \<Rightarrow> frame list \<Rightarrow> reader" where
  "deliver v [] = (Done v, [])"
| "deliver v (InArray vs # stack) = (After, InArray (v # vs) # stack)"
| "deliver v (InObject ms k # stack) = (After, InObject ((k, v) # ms) [] # stack)"

fun end_string :: "bool \<Rightarrow> nat list \<Rightarrow> frame list \<Rightarrow> reader option" where
  "end_string False s stack = Some (deliver (JString s) stack)"
| "end_string True s (InObject ms k # stack) = Some (Colon, InObject ms s # stack)"
| "end_string True s _ = None"

definition begin_value :: "bool \<Rightarrow> char \<Rightarrow> frame list \<Rightarrow> reader option" where
  "begin_value py c stack =
     (if c = CHR ''['' then Some (ValueOrEnd, InArray [] # stack)
      else if c = CHR ''{'' then Some (KeyOrEnd, InObject [] [] # stack)
      else if c = CHR 0x22 then Some (Str False [] False, stack)
      else if c = CHR ''t'' then Some (Lit ''rue'' (JBool True), stack)
      else if c = CHR ''f'' then Some (Lit ''alse'' (JBool False), stack)
      else if c = CHR ''n'' then Some (Lit ''ull'' JNull, stack)
      else (case num_start c of
              Some q \<Rightarrow> Some (Num q [c], stack)
            | None \<Rightarrow>
                (if py \<and> c = CHR ''N'' then Some (Lit ''aN'' (JNumber ''NaN''), stack)
                 else if py \<and> c = CHR ''I'' then Some (Lit ''nfinity'' (JNumber ''Infinity''), stack)
                 else None)))"

text \<open>The character after a complete value: white space, a comma or the closing bracket.\<close>

fun step_after :: "reader \<Rightarrow> char \<Rightarrow> reader option" where
  "step_after (m, stack) c =
     (if is_ws c then Some (m, stack)
      else (case stack of
          [] \<Rightarrow> None
        | InArray vs # stack' \<Rightarrow>
            (if c = CHR '','' then Some (Value, stack)
             else if c = CHR '']'' then Some (deliver (JArray (rev vs)) stack')
             else None)
        | InObject ms k # stack' \<Rightarrow>
            (if c = CHR '','' then Some (Key, stack)
             else if c = CHR ''}'' then Some (deliver (JObject (rev ms)) stack')
             else None)))"

fun step :: "bool \<Rightarrow> reader \<Rightarrow> char \<Rightarrow> reader option" where
  "step py (Value, stack) c = (if is_ws c then Some (Value, stack) else begin_value py c stack)"
| "step py (ValueOrEnd, stack) c =
     (if is_ws c then Some (ValueOrEnd, stack)
      else if c = CHR '']''
      then (case stack of
              InArray vs # stack' \<Rightarrow> Some (deliver (JArray []) stack')
            | _ \<Rightarrow> None)
      else begin_value py c stack)"
| "step py (KeyOrEnd, stack) c =
     (if is_ws c then Some (KeyOrEnd, stack)
      else if c = CHR ''}''
      then (case stack of
              InObject ms k # stack' \<Rightarrow> Some (deliver (JObject []) stack')
            | _ \<Rightarrow> None)
      else if c = CHR 0x22 then Some (Str True [] False, stack)
      else None)"
| "step py (Key, stack) c =
     (if is_ws c then Some (Key, stack)
      else if c = CHR 0x22 then Some (Str True [] False, stack)
      else None)"
| "step py (Colon, stack) c =
     (if is_ws c then Some (Colon, stack)
      else if c = CHR '':'' then Some (Value, stack)
      else None)"
| "step py (After, stack) c = step_after (After, stack) c"
| "step py (Done v, stack) c = step_after (Done v, stack) c"
| "step py (Str key acc high, stack) c =
     (if c = CHR 0x22 then end_string key (rev acc) stack
      else if c = CHR 0x5C then Some (Esc key acc high, stack)
      else if (of_char c :: nat) < 0x20 then None
      else Some (Str key (of_char c # acc) False, stack))"
| "step py (Esc key acc high, stack) c =
     (if c = CHR ''u'' then Some (Uni key acc high 4 0, stack)
      else (case unescape c of
              None \<Rightarrow> None
            | Some u \<Rightarrow> Some (Str key (u # acc) False, stack)))"
| "step py (Uni key acc high n u, stack) c =
     (case hex_value c of
        None \<Rightarrow> None
      | Some d \<Rightarrow>
          (if n \<le> 1
           then Some (Str key (push_unit high (16 * u + d) acc)
                        (is_high_surrogate (16 * u + d)), stack)
           else Some (Uni key acc high (n - 1) (16 * u + d), stack)))"
| "step py (Num q text, stack) c =
     (case num_step q c of
        Some q' \<Rightarrow> Some (Num q' (c # text), stack)
      | None \<Rightarrow>
          (if num_final q then step_after (deliver (JNumber (rev text)) stack) c
           else if py \<and> q = NMinus \<and> c = CHR ''I''
           then Some (Lit ''nfinity'' (JNumber ''-Infinity''), stack)
           else None))"
| "step py (Lit rest v, stack) c =
     (case rest of
        [] \<Rightarrow> None
      | r # rs \<Rightarrow>
          (if c \<noteq> r then None
           else if rs = [] then Some (deliver v stack)
           else Some (Lit rs v, stack)))"

fun run :: "bool \<Rightarrow> reader \<Rightarrow> string \<Rightarrow> reader option" where
  "run py r [] = Some r"
| "run py r (c # cs) = (case step py r c of None \<Rightarrow> None | Some r' \<Rightarrow> run py r' cs)"

text \<open>At the end of the text the document must be complete.\<close>

fun finish :: "reader \<Rightarrow> json option" where
  "finish (Done v, []) = Some v"
| "finish (Num q text, []) = (if num_final q then Some (JNumber (rev text)) else None)"
| "finish _ = None"

definition loads :: "bool \<Rightarrow> string \<Rightarrow> json option" where
  "loads py text = (case run py (Value, []) text of None \<Rightarrow> None | Some r \<Rightarrow> finish r)"

text \<open>Python's \<^verbatim>\<open>json.loads\<close>, and the reader that accepts JSON only.\<close>

definition json_loads :: "string \<Rightarrow> json option" where
  "json_loads text = loads True text"

definition strict_loads :: "string \<Rightarrow> json option" where
  "strict_loads text = loads False text"

definition valid_json :: "string \<Rightarrow> bool" where
  "valid_json text = (strict_loads text \<noteq> None)"

text \<open>Modes in which a value or a key may begin, and the characters that follow a number.\<close>

definition starts_value :: "mode \<Rightarrow> bool" where
  "starts_value m = (m = Value \<or> m = ValueOrEnd)"

definition starts_key :: "mode \<Rightarrow> bool" where
  "starts_key m = (m = Key \<or> m = KeyOrEnd)"

definition delimiter :: "char \<Rightarrow> bool" where
  "delimiter c = (c = CHR '','' \<or> c = CHR 0x0A)"

text \<open>The modes in which white space is skipped.\<close>

definition skips_ws :: "mode \<Rightarrow> bool" where
  "skips_ws m = (m = Value \<or> m = ValueOrEnd \<or> m = KeyOrEnd \<or> m = Key \<or> m = Colon \<or> m = After)"

text \<open>The JSON value that a list of segments stands for, numbers as the texts written for them.\<close>

fun val_json :: "('f \<Rightarrow> string) \<Rightarrow> 'f pyval \<Rightarrow> json" where
  "val_json floatstr (PyFloat x) = JNumber (floatstr x)"
| "val_json floatstr (PyStr s) = JString (map of_char s)"

definition item_json :: "('f \<Rightarrow> string) \<Rightarrow> string \<times> 'f pyval \<Rightarrow> nat list \<times> json" where
  "item_json floatstr item = (map of_char (fst item), val_json floatstr (snd item))"

definition dict_json :: "('f \<Rightarrow> string) \<Rightarrow> 'f segment \<Rightarrow> json" where
  "dict_json floatstr dct = JObject (map (item_json floatstr) dct)"

definition segments_json :: "('f \<Rightarrow> string) \<Rightarrow> 'f segment list \<Rightarrow> json" where
  "segments_json floatstr segments = JArray (map (dict_json floatstr) segments)"

text \<open>
  The texts that \<^verbatim>\<open>json.dump\<close> writes for a float: a JSON number for a finite value, and
  otherwise one of three names, which only Python's reader accepts.
\<close>

definition float_text :: "bool \<Rightarrow> string \<Rightarrow> bool" where
  "float_text py t =
     (json_number t \<or> py \<and> (t = ''NaN'' \<or> t = ''Infinity'' \<or> t = ''-Infinity''))"

fun number_ok :: "bool \<Rightarrow> ('f \<Rightarrow> string) \<Rightarrow> 'f pyval \<Rightarrow> bool" where
  "number_ok py floatstr (PyFloat x) = float_text py (floatstr x)"
| "number_ok py floatstr (PyStr s) = True"

definition items_ok :: "bool \<Rightarrow> ('f \<Rightarrow> string) \<Rightarrow> 'f segment \<Rightarrow> bool" where
  "items_ok py floatstr dct = list_all (\<lambda>item. number_ok py floatstr (snd item)) dct"

definition numbers_ok :: "bool \<Rightarrow> ('f \<Rightarrow> string) \<Rightarrow> 'f segment list \<Rightarrow> bool" where
  "numbers_ok py floatstr segments = list_all (items_ok py floatstr) segments"


text \<open>Texts of ASCII characters only, which are their own UTF-8 encoding.\<close>

definition ascii :: "string \<Rightarrow> bool" where
  "ascii s = list_all (\<lambda>c. (of_char c :: nat) < 128) s"

text \<open>
  The format in the words of the specification: a top-level array, two spaces of
  indentation per nesting level, every element and every member on a line of its own,
  a comma after each but the last, and the closing bracket on a line of its own.
\<close>

fun join :: "string \<Rightarrow> string list \<Rightarrow> string" where
  "join sep [] = []"
| "join sep [x] = x"
| "join sep (x # y # ys) = x @ sep @ join sep (y # ys)"

definition indented :: "nat \<Rightarrow> char \<Rightarrow> char \<Rightarrow> string list \<Rightarrow> string" where
  "indented depth opening closing entries =
     (if entries = [] then [opening, closing]
      else [opening]
           @ join '','' (map (\<lambda>e. CHR 0x0A # replicate (2 * (depth + 1)) CHR '' '' @ e) entries)
           @ CHR 0x0A # replicate (2 * depth) CHR '' '' @ [closing])"

definition member_text :: "('f \<Rightarrow> string) \<Rightarrow> string \<times> 'f pyval \<Rightarrow> string" where
  "member_text floatstr item =
     py_encode_basestring_ascii (fst item) @ '': '' @ encode_value floatstr (snd item)"

definition indented_array :: "('f \<Rightarrow> string) \<Rightarrow> 'f segment list \<Rightarrow> string" where
  "indented_array floatstr segments =
     indented 0 CHR ''['' CHR '']''
       (map (\<lambda>dct. indented 1 CHR ''{'' CHR ''}'' (map (member_text floatstr) dct)) segments)"

text \<open>
  Python floats with their values that are not finite, and \<^verbatim>\<open>floatstr\<close> of
  \<^verbatim>\<open>json/encoder.py\<close> with \<^verbatim>\<open>allow_nan=True\<close>, the default that \<^verbatim>\<open>json.dump\<close> is called
  with: \<^verbatim>\<open>float.__repr__\<close> for a finite value, a fixed name for the others.
\<close>

datatype 'r pyfloat = Finite 'r | PosInf | NegInf | NaN

fun json_floatstr :: "('r \<Rightarrow> string) \<Rightarrow> 'r pyfloat \<Rightarrow> string" where
  "json_floatstr repr NaN = ''NaN''"
| "json_floatstr repr PosInf = ''Infinity''"
| "json_floatstr repr NegInf = ''-Infinity''"
| "json_floatstr repr (Finite x) = repr x"

text \<open>The tracks whose interval bounds are written as JSON numbers.\<close>

definition finite_tracks :: "('f \<Rightarrow> string) \<Rightarrow> ('f turn \<times> 't \<times> string) list \<Rightarrow> bool" where
  "finite_tracks floatstr tracks =
     list_all (\<lambda>track. json_number (floatstr (turn_start (fst track)))
                     \<and> json_number (floatstr (turn_end (fst track)))) tracks"

text \<open>The tracks whose interval bounds are written as \<^verbatim>\<open>json.dump\<close> writes a float.\<close>

definition float_tracks :: "('f \<Rightarrow> string) \<Rightarrow> ('f turn \<times> 't \<times> string) list \<Rightarrow> bool" where
  "float_tracks floatstr tracks =
     list_all (\<lambda>track. float_text True (floatstr (turn_start (fst track)))
                     \<and> float_text True (floatstr (turn_end (fst track)))) tracks"

text \<open>
  What \<^verbatim>\<open>json.load\<close> makes of the value that was read: a list of dictionaries with
  strings and floats, \<open>parse_float\<close> being Python's \<^verbatim>\<open>float\<close> on the text of a number.
\<close>

definition py_str :: "nat list \<Rightarrow> string option" where
  "py_str s = (if list_all (\<lambda>n. n < 256) s then Some (map char_of s) else None)"

fun to_pyval :: "(string \<Rightarrow> 'f option) \<Rightarrow> json \<Rightarrow> 'f pyval option" where
  "to_pyval parse_float (JNumber t) = map_option PyFloat (parse_float t)"
| "to_pyval parse_float (JString s) = map_option PyStr (py_str s)"
| "to_pyval parse_float _ = None"

fun all_some :: "'a option list \<Rightarrow> 'a list option" where
  "all_some [] = Some []"
| "all_some (None # xs) = None"
| "all_some (Some x # xs) = map_option ((#) x) (all_some xs)"

fun to_segment :: "(string \<Rightarrow> 'f option) \<Rightarrow> json \<Rightarrow> 'f segment option" where
  "to_segment parse_float (JObject members) =
     all_some (map (\<lambda>(k, v). case (py_str k, to_pyval parse_float v) of
                               (Some k', Some v') \<Rightarrow> Some (k', v')
                             | _ \<Rightarrow> None) members)"
| "to_segment parse_float _ = None"

fun to_segments :: "(string \<Rightarrow> 'f option) \<Rightarrow> json \<Rightarrow> 'f segment list option" where
  "to_segments parse_float (JArray elements) = all_some (map (to_segment parse_float) elements)"
| "to_segments parse_float _ = None"

definition json_load :: "(string \<Rightarrow> 'f option) \<Rightarrow> string \<Rightarrow> 'f segment list option" where
  "json_load parse_float content =
     (case json_loads content of None \<Rightarrow> None | Some v \<Rightarrow> to_segments parse_float v)"

text \<open>The numbers of a list of segments are read back as they were.\<close>

definition floats_read_back :: "('f \<Rightarrow> string) \<Rightarrow> (string \<Rightarrow> 'f option) \<Rightarrow> 'f segment list \<Rightarrow> bool" where
  "floats_read_back floatstr parse_float segments =
     list_all (list_all (\<lambda>item. case snd item of
                                  PyFloat x \<Rightarrow> parse_float (floatstr x) = Some x
                                | PyStr s \<Rightarrow> True)) segments"

text \<open>Pipeline results with an interval bound that is not finite.\<close>

definition unbounded_tracks :: "(nat pyfloat turn \<times> nat \<times> string) list" where
  "unbounded_tracks = [(\<lparr>turn_start = Finite 0, turn_end = PosInf\<rparr>, 0, ''A'')]"

definition undefined_tracks :: "(nat pyfloat turn \<times> nat \<times> string) list" where
  "undefined_tracks = [(\<lparr>turn_start = NaN, turn_end = Finite 12\<rparr>, 0, ''A'')]"

text \<open>The paths that a list of events opens for writing.\<close>

definition opened_files :: "event list \<Rightarrow> string list" where
  "opened_files evs = concat (map (\<lambda>ev. case ev of OpenWrite p \<Rightarrow> [p] | _ \<Rightarrow> []) evs)"

text \<open>Stubs: a pipeline over floats that need not be finite, a disk that fills up, a file left by an earlier run.\<close>

definition float_world :: "(nat pyfloat turn \<times> nat \<times> string) list \<Rightarrow> (string, nat pyfloat, nat) world" where
  "float_world tracks =
     \<lparr>environ = [''HUGGINGFACE_TOKEN'' \<mapsto> ''hf_abc''],
      from_pretrained = (\<lambda>name token. Inr (\<lambda>audio. Inr (Annotation tracks None))),
      float_repr = json_floatstr tenths_repr,
      open_error = (\<lambda>p. None),
      write_error = (\<lambda>p. None)\<rparr>"



text \<open>Python's \<^verbatim>\<open>float\<close> on the texts that the stubbed pipeline leads to.\<close>

definition stub_parse_float :: "string \<Rightarrow> nat option" where
  "stub_parse_float t =
     (if t = ''0.0'' then Some 0 else if t = ''1.2'' then Some 12
      else if t = ''3.4'' then Some 34 else None)"

text \<open>A text between double quotes.\<close>

definition quoted :: "string \<Rightarrow> string" where
  "quoted s = CHR 0x22 # s @ [CHR 0x22]"

text \<open>The file that the stubbed pipeline leads to, line by line.\<close>

definition stub_output :: string where
  "stub_output = join [CHR 0x0A]
     [''['',
      ''  {'',
      ''    '' @ quoted ''start'' @ '': 0.0,'',
      ''    '' @ quoted ''end'' @ '': 1.2,'',
      ''    '' @ quoted ''speaker'' @ '': '' @ quoted ''SPEAKER_A'',
      ''  },'',
      ''  {'',
      ''    '' @ quoted ''start'' @ '': 1.2,'',
      ''    '' @ quoted ''end'' @ '': 3.4,'',
      ''    '' @ quoted ''speaker'' @ '': '' @ quoted ''SPEAKER_B'',
      ''  }'',
      '']'']"

text \<open>The member of a JSON object under a key, as \<^verbatim>\<open>element[key]\<close> reads it.\<close>

definition json_get :: "json \<Rightarrow> string \<Rightarrow> json option" where
  "json_get v k = (case v of JObject members \<Rightarrow> map_of members (map of_char k) | _ \<Rightarrow> None)"

text \<open>A pipeline result whose interval starts at minus infinity.\<close>

definition unbounded_below_tracks :: "(nat pyfloat turn \<times> nat \<times> string) list" where
  "unbounded_below_tracks = [(\<lparr>turn_start = NegInf, turn_end = Finite 12\<rparr>, 0, ''A'')]"

section \<open>What the runner does\<close>

lemma collect_append:
  "collect ts acc = acc @ map (\<lambda>(turn, track, speaker). speaker_segment turn speaker) ts"
  by (induction ts arbitrary: acc) auto

lemma length_collect: "length (collect ts []) = length ts"
  by (simp add: collect_append)

lemma collect_nth:
  "i < length ts \<Longrightarrow> ts ! i = (turn, track, label) \<Longrightarrow> collect ts [] ! i = speaker_segment turn label"
  by (simp add: collect_append)

lemma files_emit [simp]: "files (emit ev s) = files s"
  by (simp add: emit_def)

lemma trace_emit [simp]: "trace (emit ev s) = trace s @ [ev]"
  by (simp add: emit_def)

lemma files_emit_all [simp]: "files (fold (\<lambda>l. emit (Print l)) ls s) = files s"
  by (induction ls arbitrary: s) auto

lemma trace_emit_all [simp]: "trace (fold (\<lambda>l. emit (Print l)) ls s) = trace s @ map Print ls"
  by (induction ls arbitrary: s) auto

lemma write_json_success:
  "write_json w out segs s = (Inr u, s') \<Longrightarrow>
     open_error w out = None \<and> trace s' = trace s @ [OpenWrite out] \<and>
     files s' = (files s)(out \<mapsto> json_dump (float_repr w) segs)"
  by (auto simp: write_json_def Let_def split: option.splits if_splits prod.splits)

lemma diarize_audio_success:
  assumes "diarize_audio w audio out s = (Inr u, s')"
  shows "\<exists>p d. from_pretrained w model_name (environ w ''HUGGINGFACE_TOKEN'') = Inr p \<and> p audio = Inr d
      \<and> iter_error d = None \<and> open_error w out = None
      \<and> files s' = (files s)(out \<mapsto> json_dump (float_repr w) (collect (itertracks d) []))
      \<and> trace s' = trace s @ preamble w audio @
           [CallPipeline audio, Itertracks, OpenWrite out,
            Print (''Diarization complete. Found '' @ str_nat (length (itertracks d)) @ '' speaker segments.''),
            Print (''Results saved to '' @ out)]"
  using assms
  apply (simp add: diarize_audio_def Let_def split: sum.splits option.splits prod.splits)
  apply (auto dest!: write_json_success simp: preamble_def length_collect)
  done

lemma stub_run: "fst (diarize_audio stub_world ''talk.wav'' ''out.json'' init_state) = Inr ()"
  by (simp add: diarize_audio_def stub_world_def stub_pipeline_def write_json_def Let_def
      init_state_def)

text \<open>
  Claim C1.  On a run that completes, the list handed to \<^verbatim>\<open>json.dump\<close> has one element
  per yielded triple, and its i-th element is built from the i-th triple: \<^verbatim>\<open>start\<close> and
  \<^verbatim>\<open>end\<close> are the interval's own values and \<^verbatim>\<open>speaker\<close> is \<^verbatim>\<open>SPEAKER_\<close> followed by the
  label.  Nothing is validated, sorted or corrected, so the element has \<^verbatim>\<open>start <= end\<close>
  exactly when the yielded interval has.
\<close>

theorem segments_follow_yield_order:
  fixes w :: "('e, 'f::ord, 't) world"
  assumes "diarize_audio w audio_file output_file s = (Inr (), s')"
    and "from_pretrained w model_name (environ w ''HUGGINGFACE_TOKEN'') = Inr pipeline"
    and "pipeline audio_file = Inr d"
    and "i < length (itertracks d)"
    and "itertracks d ! i = (turn, track, label)"
  shows "files s' output_file = Some (json_dump (float_repr w) (collect (itertracks d) []))
       \<and> length (collect (itertracks d) []) = length (itertracks d)
       \<and> collect (itertracks d) [] ! i =
            [(''start'', PyFloat (turn_start turn)), (''end'', PyFloat (turn_end turn)),
             (''speaker'', PyStr (''SPEAKER_'' @ label))]
       \<and> (well_ordered (collect (itertracks d) [] ! i) \<longleftrightarrow> turn_start turn \<le> turn_end turn)"
proof -
  from diarize_audio_success [OF assms(1)] assms(2,3)
  have "files s' = (files s)(output_file \<mapsto> json_dump (float_repr w) (collect (itertracks d) []))"
    by auto
  moreover have "collect (itertracks d) [] ! i = speaker_segment turn label"
    using assms(4,5) by (rule collect_nth)
  ultimately show ?thesis
    by (simp add: length_collect speaker_segment_def well_ordered_def)
qed

theorem segments_follow_yield_order_witness:
  "collect stub_tracks [] ! 1 =
     [(''start'', PyFloat 12), (''end'', PyFloat 34), (''speaker'', PyStr ''SPEAKER_B'')]
   \<and> well_ordered (collect stub_tracks [] ! 1)"
proof -
  define s' where "s' = snd (diarize_audio stub_world ''talk.wav'' ''out.json'' init_state)"
  have run: "diarize_audio stub_world ''talk.wav'' ''out.json'' init_state = (Inr (), s')"
    unfolding s'_def using stub_run by (metis prod.collapse)
  have p: "from_pretrained stub_world model_name (environ stub_world ''HUGGINGFACE_TOKEN'')
      = Inr stub_pipeline"
    by (simp add: stub_world_def)
  have d: "stub_pipeline ''talk.wav'' = Inr (Annotation stub_tracks None)"
    by (simp add: stub_pipeline_def)
  have i: "1 < length (itertracks (Annotation stub_tracks None :: (string, nat, nat) annotation))"
    by (simp add: stub_tracks_def)
  have t: "itertracks (Annotation stub_tracks None :: (string, nat, nat) annotation) ! 1
      = (\<lparr>turn_start = 12, turn_end = 34\<rparr>, 1, ''B'')"
    by (simp add: stub_tracks_def)
  from segments_follow_yield_order [OF run p d i t] show ?thesis
    by (simp add: well_ordered_def)
qed




text \<open>
  Claim C4.  When the pipeline raises on the audio path, the exception leaves
  \<^verbatim>\<open>diarize_audio\<close> uncaught, the process exits with status 1, and the files are what they
  were: the run ends after the pipeline call, before any file is opened.
\<close>

theorem invalid_audio_exits_nonzero:
  assumes "from_pretrained w model_name (environ w ''HUGGINGFACE_TOKEN'') = Inr pipeline"
    and "pipeline audio_file = Inl e"
  shows "\<exists>s'. diarize_audio w audio_file output_file s = (Inl e, s')
       \<and> main w audio_file output_file s = (1, s')
       \<and> files s' = files s
       \<and> new_events s s' = preamble w audio_file @ [CallPipeline audio_file]
       \<and> OpenWrite output_file \<notin> set (new_events s s')"
  using assms
  by (auto simp: diarize_audio_def main_def Let_def new_events_def preamble_def)

theorem invalid_audio_exits_nonzero_witness:
  "main stub_world ''missing.wav'' ''out.json'' init_state =
     (1, \<lparr>trace = [Print ''Starting diarization for missing.wav'',
                    FromPretrained model_name (Some ''hf_abc''),
                    CallPipeline ''missing.wav''],
          files = Map.empty\<rparr>)"
proof -
  have p: "from_pretrained stub_world model_name (environ stub_world ''HUGGINGFACE_TOKEN'')
      = Inr stub_pipeline"
    by (simp add: stub_world_def)
  have d: "stub_pipeline ''missing.wav'' = Inl ''FileNotFoundError''"
    by (simp add: stub_pipeline_def)
  from invalid_audio_exits_nonzero [OF p d, of "''out.json''" init_state]
  obtain s' where m: "main stub_world ''missing.wav'' ''out.json'' init_state = (1, s')"
    and f: "files s' = files init_state"
    and t: "new_events init_state s' = preamble stub_world ''missing.wav'' @ [CallPipeline ''missing.wav'']"
    by blast
  have "trace s' = [Print ''Starting diarization for missing.wav'',
                    FromPretrained model_name (Some ''hf_abc''),
                    CallPipeline ''missing.wav'']"
    using t by (simp add: new_events_def init_state_def preamble_def stub_world_def)
  moreover have "files s' = Map.empty"
    using f by (simp add: init_state_def)
  ultimately have "s' = \<lparr>trace = [Print ''Starting diarization for missing.wav'',
                    FromPretrained model_name (Some ''hf_abc''),
                    CallPipeline ''missing.wav''], files = Map.empty\<rparr>"
    by (cases s') simp
  with m show ?thesis by simp
qed



text \<open>
  Claim C8.  When the pipeline yields no triple (and the output file can be opened and
  written), the run succeeds with status 0, the output file holds exactly \<^verbatim>\<open>[]\<close>, and the
  completion message reports 0 segments.
\<close>

theorem empty_result_writes_empty_array:
  assumes "from_pretrained w model_name (environ w ''HUGGINGFACE_TOKEN'') = Inr pipeline"
    and "pipeline audio_file = Inr d"
    and "itertracks d = []"
    and "iter_error d = None"
    and "open_error w output_file = None"
    and "write_error w output_file = None"
  shows "\<exists>s'. diarize_audio w audio_file output_file s = (Inr (), s')
       \<and> main w audio_file output_file s = (0, s')
       \<and> files s' = (files s)(output_file \<mapsto> ''[]'')
       \<and> new_events s s' = preamble w audio_file @
            [CallPipeline audio_file, Itertracks, OpenWrite output_file,
             Print ''Diarization complete. Found 0 speaker segments.'',
             Print (''Results saved to '' @ output_file)]"
  using assms
  by (simp add: diarize_audio_def main_def Let_def new_events_def write_json_def
      json_dump_def iterencode_list_def str_nat.simps digit_char_def preamble_def)

theorem empty_result_writes_empty_array_witness:
  "main stub_world ''silence.wav'' ''out.json'' init_state =
     (0, \<lparr>trace = [Print ''Starting diarization for silence.wav'',
                    FromPretrained model_name (Some ''hf_abc''),
                    CallPipeline ''silence.wav'', Itertracks, OpenWrite ''out.json'',
                    Print ''Diarization complete. Found 0 speaker segments.'',
                    Print ''Results saved to out.json''],
          files = [''out.json'' \<mapsto> ''[]'']\<rparr>)"
proof -
  have p: "from_pretrained stub_world model_name (environ stub_world ''HUGGINGFACE_TOKEN'')
      = Inr stub_pipeline"
    by (simp add: stub_world_def)
  have d: "stub_pipeline ''silence.wav'' = Inr (Annotation [] None)"
    by (simp add: stub_pipeline_def)
  have o: "open_error stub_world ''out.json'' = None" and e: "write_error stub_world ''out.json'' = None"
    by (simp_all add: stub_world_def)
  from empty_result_writes_empty_array [OF p d _ _ o e, of init_state]
  obtain s' where m: "main stub_world ''silence.wav'' ''out.json'' init_state = (0, s')"
    and f: "files s' = (files init_state)(''out.json'' \<mapsto> ''[]'')"
    and t: "new_events init_state s' = preamble stub_world ''silence.wav'' @
            [CallPipeline ''silence.wav'', Itertracks, OpenWrite ''out.json'',
             Print ''Diarization complete. Found 0 speaker segments.'',
             Print (''Results saved to '' @ ''out.json'')]"
    by auto
  have "trace s' = [Print ''Starting diarization for silence.wav'',
                    FromPretrained model_name (Some ''hf_abc''),
                    CallPipeline ''silence.wav'', Itertracks, OpenWrite ''out.json'',
                    Print ''Diarization complete. Found 0 speaker segments.'',
                    Print ''Results saved to out.json'']"
    using t by (simp add: new_events_def init_state_def preamble_def stub_world_def)
  moreover have "files s' = [''out.json'' \<mapsto> ''[]'']"
    using f by (simp add: init_state_def)
  ultimately have "s' = \<lparr>trace = [Print ''Starting diarization for silence.wav'',
                    FromPretrained model_name (Some ''hf_abc''),
                    CallPipeline ''silence.wav'', Itertracks, OpenWrite ''out.json'',
                    Print ''Diarization complete. Found 0 speaker segments.'',
                    Print ''Results saved to out.json''],
          files = [''out.json'' \<mapsto> ''[]'']\<rparr>"
    by (cases s') simp
  with m show ?thesis by simp
qed

lemma new_events_append: "trace s' = trace s @ evs \<Longrightarrow> new_events s s' = evs"
  by (simp add: new_events_def)



text \<open>
  Claim C10.  Two completed runs whose pipelines yield the same triples write the same
  text, whatever the environment, the audio paths, the output paths and the earlier
  contents of the files.  (Both runs use the same \<^verbatim>\<open>float.__repr__\<close>.)
\<close>

theorem output_depends_only_on_triples:
  assumes "diarize_audio w1 audio1 output1 s1 = (Inr (), s1')"
    and "diarize_audio w2 audio2 output2 s2 = (Inr (), s2')"
    and "from_pretrained w1 model_name (environ w1 ''HUGGINGFACE_TOKEN'') = Inr pipeline1"
    and "from_pretrained w2 model_name (environ w2 ''HUGGINGFACE_TOKEN'') = Inr pipeline2"
    and "pipeline1 audio1 = Inr d1"
    and "pipeline2 audio2 = Inr d2"
    and "itertracks d1 = itertracks d2"
    and "float_repr w1 = float_repr w2"
  shows "files s1' output1 = files s2' output2
       \<and> files s1' output1 = Some (json_dump (float_repr w1) (collect (itertracks d1) []))"
proof -
  from diarize_audio_success [OF assms(1)] assms(3,5)
  have 1: "files s1' = (files s1)(output1 \<mapsto> json_dump (float_repr w1) (collect (itertracks d1) []))"
    by auto
  from diarize_audio_success [OF assms(2)] assms(4,6)
  have 2: "files s2' = (files s2)(output2 \<mapsto> json_dump (float_repr w2) (collect (itertracks d2) []))"
    by auto
  show ?thesis
    using assms(7,8) by (simp add: 1 2)
qed

theorem output_depends_only_on_triples_witness:
  "files (snd (diarize_audio stub_world ''talk.wav'' ''out.json'' init_state)) ''out.json''
   = files (snd (diarize_audio other_world ''copy.mp3'' ''result.json''
       (init_state\<lparr>files := [''result.json'' \<mapsto> ''old'']\<rparr>))) ''result.json''"
proof -
  let ?run1 = "diarize_audio stub_world ''talk.wav'' ''out.json'' init_state"
  let ?run2 = "diarize_audio other_world ''copy.mp3'' ''result.json''
       (init_state\<lparr>files := [''result.json'' \<mapsto> ''old'']\<rparr>)"
  have f1: "fst ?run1 = Inr ()"
    by (rule stub_run)
  have f2: "fst ?run2 = Inr ()"
    by (simp add: diarize_audio_def other_world_def write_json_def Let_def init_state_def)
  have r1: "?run1 = (Inr (), snd ?run1)" and r2: "?run2 = (Inr (), snd ?run2)"
    using f1 f2 by (metis prod.collapse)+
  have p1: "from_pretrained stub_world model_name (environ stub_world ''HUGGINGFACE_TOKEN'')
      = Inr stub_pipeline"
    by (simp add: stub_world_def)
  have p2: "from_pretrained other_world model_name (environ other_world ''HUGGINGFACE_TOKEN'')
      = Inr (\<lambda>audio. Inr (Annotation stub_tracks None))"
    by (simp add: other_world_def)
  have d1: "stub_pipeline ''talk.wav'' = Inr (Annotation stub_tracks None)"
    by (simp add: stub_pipeline_def)
  have d2: "(\<lambda>audio. Inr (Annotation stub_tracks None :: (string, nat, nat) annotation)) ''copy.mp3''
      = (Inr (Annotation stub_tracks None) :: string + (string, nat, nat) annotation)"
    by simp
  have fr: "float_repr stub_world = float_repr other_world"
    by (simp add: stub_world_def other_world_def)
  from output_depends_only_on_triples [OF r1 r2 p1 p2 d1 d2 _ fr] show ?thesis
    by simp
qed

subsection \<open>The reader on the text that \<^verbatim>\<open>json.dump\<close> writes\<close>


lemma hex_all: "list_all (\<lambda>d. hex_value (digit_char d) = Some d) [0..<16]"
  by code_simp

lemma hex_value_digit_char: "d < 16 \<Longrightarrow> hex_value (digit_char d) = Some d"
  using hex_all by (simp add: list_all_iff)

lemma step_uni:
  "hex_value c = Some d \<Longrightarrow>
   step py (Uni key acc high n u, stack) c =
     (if n \<le> 1
      then Some (Str key (push_unit high (16 * u + d) acc) (is_high_surrogate (16 * u + d)), stack)
      else Some (Uni key acc high (n - 1) (16 * u + d), stack))"
  by simp

lemma push_unit_small: "u < 256 \<Longrightarrow> push_unit high u acc = u # acc"
  by (cases "(high, u, acc)" rule: push_unit.cases) auto

lemma run_hex4:
  assumes "n < 256"
  shows "run py (Uni key acc high 4 0, stack) (hex4 n @ rest) = run py (Str key (n # acc) False, stack) rest"
proof -
  define a where "a = n div 16"
  define b where "b = n mod 16"
  have ab: "a < 16" "b < 16" "16 * a + b = n"
    using assms by (simp_all add: a_def b_def)
  have h: "hex4 n = [digit_char 0, digit_char 0, digit_char a, digit_char b]"
    using assms by (simp add: hex4_def a_def b_def)
  have h0: "hex_value (digit_char 0) = Some 0"
    and ha: "hex_value (digit_char a) = Some a"
    and hb: "hex_value (digit_char b) = Some b"
    using ab by (simp_all add: hex_value_digit_char)
  have s1: "step py (Uni key acc high 4 0, stack) (digit_char 0) = Some (Uni key acc high 3 0, stack)"
    by (simp add: h0)
  have s2: "step py (Uni key acc high 3 0, stack) (digit_char 0) = Some (Uni key acc high 2 0, stack)"
    by (simp add: h0)
  have s3: "step py (Uni key acc high 2 0, stack) (digit_char a) = Some (Uni key acc high (Suc 0) a, stack)"
    by (simp add: ha)
  have nh: "\<not> is_high_surrogate n"
    using assms by (simp add: is_high_surrogate_def)
  have s4: "step py (Uni key acc high (Suc 0) a, stack) (digit_char b) = Some (Str key (n # acc) False, stack)"
    using ab(3) nh assms by (simp add: hb push_unit_small)
  show ?thesis
    unfolding h by (simp add: s1 s2 s3 s4 del: step.simps)
qed

lemma run_escape_char:
  "run py (Str key acc False, stack) (escape_char c @ rest)
     = run py (Str key (of_char c # acc) False, stack) rest"
proof -
  have u: "run py (Uni key acc False 4 0, stack) (hex4 (of_char c) @ rest)
      = run py (Str key (of_char c # acc) False, stack) rest"
    by (rule run_hex4) simp
  have ctl: "\<not> (of_char c :: nat) < 32" if "(32::nat) \<le> of_char c"
    using that by simp
  show ?thesis
    unfolding escape_char_def
    by (auto simp: u unescape_def simp del: step.simps(10) intro: ctl)
qed

lemma run_string_body:
  "run py (Str key acc False, stack) (concat (map escape_char s) @ rest)
     = run py (Str key (rev (map of_char s) @ acc) False, stack) rest"
proof (induction s arbitrary: acc)
  case Nil
  show ?case by simp
next
  case (Cons c s)
  have "run py (Str key acc False, stack) (concat (map escape_char (c # s)) @ rest)
      = run py (Str key acc False, stack) (escape_char c @ (concat (map escape_char s) @ rest))"
    by simp
  also have "\<dots> = run py (Str key (of_char c # acc) False, stack) (concat (map escape_char s) @ rest)"
    by (rule run_escape_char)
  also have "\<dots> = run py (Str key (rev (map of_char s) @ of_char c # acc) False, stack) rest"
    by (rule Cons.IH)
  finally show ?case by simp
qed

lemma run_string_value:
  assumes "starts_value m"
  shows "run py (m, stack) (py_encode_basestring_ascii s @ rest)
     = run py (deliver (JString (map of_char s)) stack) rest"
proof -
  have "run py (m, stack) (py_encode_basestring_ascii s @ rest)
      = run py (Str False [] False, stack) (concat (map escape_char s) @ (CHR 0x22 # rest))"
    using assms by (auto simp: starts_value_def py_encode_basestring_ascii_def is_ws_def begin_value_def)
  also have "\<dots> = run py (Str False (rev (map of_char s) @ []) False, stack) (CHR 0x22 # rest)"
    by (rule run_string_body)
  also have "\<dots> = run py (deliver (JString (map of_char s)) stack) rest"
    by simp
  finally show ?thesis .
qed

lemma run_string_key:
  assumes "starts_key m"
  shows "run py (m, InObject ms k # stack) (py_encode_basestring_ascii s @ rest)
     = run py (Colon, InObject ms (map of_char s) # stack) rest"
proof -
  have "run py (m, InObject ms k # stack) (py_encode_basestring_ascii s @ rest)
      = run py (Str True [] False, InObject ms k # stack) (concat (map escape_char s) @ (CHR 0x22 # rest))"
    using assms by (auto simp: starts_key_def py_encode_basestring_ascii_def is_ws_def)
  also have "\<dots> = run py (Str True (rev (map of_char s) @ []) False, InObject ms k # stack) (CHR 0x22 # rest)"
    by (rule run_string_body)
  also have "\<dots> = run py (Colon, InObject ms (map of_char s) # stack) rest"
    by simp
  finally show ?thesis .
qed

lemma run_num_run:
  "num_run q cs = Some q' \<Longrightarrow>
   run py (Num q lexeme, stack) (cs @ rest) = run py (Num q' (rev cs @ lexeme), stack) rest"
  by (induction cs arbitrary: q lexeme) (auto split: option.splits)

lemma not_digit:
  "\<not> is_digit CHR '' ''" "\<not> is_digit CHR 0x09" "\<not> is_digit CHR 0x0A" "\<not> is_digit CHR 0x0D"
  "\<not> is_digit CHR ''[''" "\<not> is_digit CHR '']''" "\<not> is_digit CHR ''{''" "\<not> is_digit CHR 0x22"
  "\<not> is_digit CHR ''t''" "\<not> is_digit CHR ''f''" "\<not> is_digit CHR ''n''"
  "\<not> is_digit CHR '',''" "\<not> is_digit CHR ''}''" "\<not> is_digit CHR '':''"
  by (simp_all add: is_digit_def)

lemma digit_not_special:
  "is_digit c \<Longrightarrow> \<not> is_ws c \<and> c \<noteq> CHR ''['' \<and> c \<noteq> CHR '']'' \<and> c \<noteq> CHR ''{'' \<and> c \<noteq> CHR 0x22
     \<and> c \<noteq> CHR ''t'' \<and> c \<noteq> CHR ''f'' \<and> c \<noteq> CHR ''n''"
  using not_digit by (auto simp: is_ws_def)

lemma num_start_begin:
  assumes "num_start c = Some q"
  shows "\<not> is_ws c \<and> begin_value py c stack = Some (Num q [c], stack) \<and> c \<noteq> CHR '']''"
proof -
  consider "c = CHR ''-''" | "c = CHR ''0''" | "c \<noteq> CHR ''-''" "c \<noteq> CHR ''0''" "is_digit c"
    using assms by (auto simp: num_start_def split: if_splits)
  then show ?thesis
  proof cases
    case 1
    with assms show ?thesis by (simp add: num_start_def begin_value_def is_ws_def)
  next
    case 2
    with assms show ?thesis by (simp add: num_start_def begin_value_def is_ws_def)
  next
    case 3
    with assms digit_not_special [OF 3(3)] show ?thesis
      by (simp add: num_start_def begin_value_def)
  qed
qed

lemma num_step_delimiter: "delimiter c \<Longrightarrow> num_step q c = None"
  by (cases q) (auto simp: delimiter_def is_digit_def)

lemma run_pending_number:
  assumes "num_final q" and "delimiter d" and "stack \<noteq> []"
  shows "run py (Num q lexeme, stack) (d # rest) = run py (deliver (JNumber (rev lexeme)) stack) (d # rest)"
proof -
  obtain fr st where st: "stack = fr # st"
    using assms(3) by (cases stack) auto
  have n: "num_step q d = None"
    using assms(2) by (rule num_step_delimiter)
  show ?thesis
    unfolding st using n assms(1) by (cases fr) simp_all
qed

lemma run_json_number:
  assumes "json_number s" and "starts_value m" and "delimiter d" and "stack \<noteq> []"
  shows "run py (m, stack) (s @ d # rest) = run py (deliver (JNumber s) stack) (d # rest)"
proof -
  from assms(1) obtain c cs q q' where s: "s = c # cs" and q: "num_start c = Some q"
    and q': "num_run q cs = Some q'" and f: "num_final q'"
    by (auto simp: json_number_def split: list.splits option.splits)
  have "run py (m, stack) (s @ d # rest) = run py (Num q [c], stack) (cs @ d # rest)"
    using assms(2) num_start_begin [OF q, of py stack] by (auto simp: s starts_value_def)
  also have "\<dots> = run py (Num q' (rev cs @ [c]), stack) (d # rest)"
    by (rule run_num_run [OF q'])
  also have "\<dots> = run py (deliver (JNumber (rev (rev cs @ [c]))) stack) (d # rest)"
    using f assms(3,4) by (rule run_pending_number)
  finally show ?thesis by (simp add: s)
qed

lemma run_names:
  assumes "starts_value m"
  shows "run True (m, stack) (''NaN'' @ rest) = run True (deliver (JNumber ''NaN'') stack) rest"
    and "run True (m, stack) (''Infinity'' @ rest)
      = run True (deliver (JNumber ''Infinity'') stack) rest"
    and "run True (m, stack) (''-Infinity'' @ rest)
      = run True (deliver (JNumber ''-Infinity'') stack) rest"
  using assms
  by (auto simp: starts_value_def is_ws_def begin_value_def num_start_def is_digit_def)

lemma step_ws: "skips_ws m \<Longrightarrow> is_ws c \<Longrightarrow> step py (m, stack) c = Some (m, stack)"
  by (auto simp: skips_ws_def)

lemma run_ws:
  "skips_ws m \<Longrightarrow> \<forall>c \<in> set w. is_ws c \<Longrightarrow> run py (m, stack) (w @ rest) = run py (m, stack) rest"
  by (induction w) (simp_all add: step_ws del: step.simps)

lemma ws_newline_indent: "\<forall>c \<in> set (newline_indent level). is_ws c"
  by (induction level) (auto simp: newline_indent_def is_ws_def)

lemma run_newline_indent:
  "skips_ws m \<Longrightarrow> run py (m, stack) (newline_indent level @ rest) = run py (m, stack) rest"
  by (rule run_ws [OF _ ws_newline_indent])

lemma run_number:
  assumes "float_text py s" and "starts_value m" and "delimiter d" and "stack \<noteq> []"
  shows "run py (m, stack) (s @ d # rest) = run py (deliver (JNumber s) stack) (d # rest)"
proof (cases "json_number s")
  case True
  then show ?thesis
    using assms(2-4) by (rule run_json_number)
next
  case False
  with assms(1) have py: "py" and s: "s = ''NaN'' \<or> s = ''Infinity'' \<or> s = ''-Infinity''"
    by (simp_all add: float_text_def)
  from s show ?thesis
    using run_names [OF assms(2), of stack "d # rest"] py by (elim disjE) simp_all
qed

lemma run_value:
  assumes "number_ok py fr v" and "delimiter d"
  shows "run py (Value, InObject ms k # st) (encode_value fr v @ d # rest)
     = run py (After, InObject ((k, val_json fr v) # ms) [] # st) (d # rest)"
proof (cases v)
  case (PyFloat x)
  have "run py (Value, InObject ms k # st) (fr x @ d # rest)
      = run py (deliver (JNumber (fr x)) (InObject ms k # st)) (d # rest)"
    using assms by (intro run_number) (simp_all add: PyFloat starts_value_def)
  then show ?thesis by (simp add: PyFloat)
next
  case (PyStr s)
  have "run py (Value, InObject ms k # st) (py_encode_basestring_ascii s @ (d # rest))
      = run py (deliver (JString (map of_char s)) (InObject ms k # st)) (d # rest)"
    by (rule run_string_value) (simp add: starts_value_def)
  then show ?thesis by (simp add: PyStr)
qed

lemma run_item:
  assumes "starts_key m" and "number_ok py fr v" and "delimiter d"
  shows "run py (m, InObject ms k0 # st)
           (py_encode_basestring_ascii key @ '': '' @ encode_value fr v @ d # rest)
     = run py (After, InObject (item_json fr (key, v) # ms) [] # st) (d # rest)"
proof -
  have "run py (m, InObject ms k0 # st)
           (py_encode_basestring_ascii key @ ('': '' @ encode_value fr v @ d # rest))
      = run py (Colon, InObject ms (map of_char key) # st) ('': '' @ encode_value fr v @ d # rest)"
    using assms(1) by (rule run_string_key)
  also have "\<dots> = run py (Value, InObject ms (map of_char key) # st) (encode_value fr v @ d # rest)"
    by (simp add: is_ws_def begin_value_def)
  also have "\<dots> = run py (After, InObject ((map of_char key, val_json fr v) # ms) [] # st) (d # rest)"
    using assms(2,3) by (rule run_value)
  finally show ?thesis by (simp add: item_json_def)
qed

lemma items_start_delimiter:
  assumes "delimiter d"
  shows "\<exists>d' rest'. iterencode_items fr lvl False items @ d # rest = d' # rest' \<and> delimiter d'"
proof (cases items)
  case Nil
  with assms show ?thesis by simp
next
  case (Cons item items')
  then show ?thesis by (cases item) (simp add: delimiter_def)
qed

lemma run_items:
  assumes "items_ok py fr items" and "delimiter d"
  shows "run py (After, InObject ms [] # st) (iterencode_items fr lvl False items @ d # rest)
     = run py (After, InObject (rev (map (item_json fr) items) @ ms) [] # st) (d # rest)"
  using assms(1)
proof (induction items arbitrary: ms)
  case Nil
  show ?case by simp
next
  case (Cons item items)
  obtain key v where item: "item = (key, v)"
    by (cases item)
  from Cons.prems have v: "number_ok py fr v" and ok: "items_ok py fr items"
    by (simp_all add: items_ok_def item)
  obtain d' rest' where next_char: "iterencode_items fr lvl False items @ d # rest = d' # rest'"
    and d': "delimiter d'"
    using items_start_delimiter [OF assms(2)] by blast
  have "run py (After, InObject ms [] # st) (iterencode_items fr lvl False (item # items) @ d # rest)
      = run py (After, InObject ms [] # st)
          (CHR '','' # newline_indent lvl
           @ (py_encode_basestring_ascii key @ '': '' @ encode_value fr v @ d' # rest'))"
    by (simp add: item next_char [symmetric])
  also have "\<dots> = run py (Key, InObject ms [] # st)
          (newline_indent lvl
           @ (py_encode_basestring_ascii key @ '': '' @ encode_value fr v @ d' # rest'))"
    by (simp add: is_ws_def)
  also have "\<dots> = run py (Key, InObject ms [] # st)
          (py_encode_basestring_ascii key @ '': '' @ encode_value fr v @ d' # rest')"
    by (rule run_newline_indent) (simp add: skips_ws_def)
  also have "\<dots> = run py (After, InObject (item_json fr (key, v) # ms) [] # st) (d' # rest')"
    using _ v d' by (rule run_item) (simp add: starts_key_def)
  also have "\<dots> = run py (After, InObject (item_json fr (key, v) # ms) [] # st)
          (iterencode_items fr lvl False items @ d # rest)"
    by (simp add: next_char)
  also have "\<dots> = run py (After, InObject (rev (map (item_json fr) items) @ item_json fr (key, v) # ms) [] # st)
          (d # rest)"
    by (rule Cons.IH [OF ok])
  finally show ?case by (simp add: item)
qed

lemma run_dict:
  assumes "items_ok py fr dct" and "starts_value m"
  shows "run py (m, InArray vs # st) (iterencode_dict fr dct lvl @ rest)
     = run py (After, InArray (dict_json fr dct # vs) # st) rest"
proof (cases dct)
  case Nil
  then show ?thesis
    using assms(2)
    by (auto simp: iterencode_dict_def dict_json_def starts_value_def is_ws_def begin_value_def)
next
  case (Cons item items)
  obtain key v where item: "item = (key, v)"
    by (cases item)
  from assms(1) have v: "number_ok py fr v" and ok: "items_ok py fr items"
    by (simp_all add: items_ok_def item Cons)
  let ?close = "concat (replicate lvl ''  '') @ ''}'' @ rest"
  have nl: "delimiter (CHR 0x0A)"
    by (simp add: delimiter_def)
  obtain d' rest' where next_char:
    "iterencode_items fr (lvl + 1) False items @ CHR 0x0A # ?close = d' # rest'"
    and d': "delimiter d'"
    using items_start_delimiter [OF nl] by blast
  have "run py (m, InArray vs # st) (iterencode_dict fr dct lvl @ rest)
      = run py (m, InArray vs # st)
          (CHR ''{'' # newline_indent (lvl + 1)
           @ (py_encode_basestring_ascii key @ '': '' @ encode_value fr v @ d' # rest'))"
    by (simp add: iterencode_dict_def Cons item newline_indent_def next_char [symmetric])
  also have "\<dots> = run py (KeyOrEnd, InObject [] [] # InArray vs # st)
          (newline_indent (lvl + 1)
           @ (py_encode_basestring_ascii key @ '': '' @ encode_value fr v @ d' # rest'))"
    using assms(2) by (auto simp: starts_value_def is_ws_def begin_value_def)
  also have "\<dots> = run py (KeyOrEnd, InObject [] [] # InArray vs # st)
          (py_encode_basestring_ascii key @ '': '' @ encode_value fr v @ d' # rest')"
    by (rule run_newline_indent) (simp add: skips_ws_def)
  also have "\<dots> = run py (After, InObject (item_json fr (key, v) # []) [] # InArray vs # st) (d' # rest')"
    using _ v d' by (rule run_item) (simp add: starts_key_def)
  also have "\<dots> = run py (After, InObject [item_json fr (key, v)] [] # InArray vs # st)
          (iterencode_items fr (lvl + 1) False items @ CHR 0x0A # ?close)"
    by (simp only: next_char)
  also have "\<dots> = run py (After, InObject (rev (map (item_json fr) items) @ [item_json fr (key, v)]) [] # InArray vs # st)
          (CHR 0x0A # ?close)"
    by (rule run_items [OF ok nl])
  also have "\<dots> = run py (After, InObject (rev (map (item_json fr) items) @ [item_json fr (key, v)]) [] # InArray vs # st)
          (newline_indent lvl @ (''}'' @ rest))"
    by (simp add: newline_indent_def)
  also have "\<dots> = run py (After, InObject (rev (map (item_json fr) items) @ [item_json fr (key, v)]) [] # InArray vs # st)
          (''}'' @ rest)"
    by (rule run_newline_indent) (simp add: skips_ws_def)
  also have "\<dots> = run py (After, InArray (dict_json fr dct # vs) # st) rest"
    by (simp add: is_ws_def dict_json_def Cons item)
  finally show ?thesis .
qed

lemma run_elems:
  assumes "numbers_ok py fr lst"
  shows "run py (After, InArray vs # st) (iterencode_elems fr lvl ('','' @ newline_indent lvl) lst @ rest)
     = run py (After, InArray (rev (map (dict_json fr) lst) @ vs) # st) rest"
  using assms
proof (induction lst arbitrary: vs)
  case Nil
  show ?case by simp
next
  case (Cons dct lst)
  from Cons.prems have ok: "items_ok py fr dct" and oks: "numbers_ok py fr lst"
    by (simp_all add: numbers_ok_def)
  let ?tail = "iterencode_elems fr lvl ('','' @ newline_indent lvl) lst @ rest"
  have "run py (After, InArray vs # st)
          (iterencode_elems fr lvl ('','' @ newline_indent lvl) (dct # lst) @ rest)
      = run py (After, InArray vs # st)
          (CHR '','' # newline_indent lvl @ (iterencode_dict fr dct lvl @ ?tail))"
    by simp
  also have "\<dots> = run py (Value, InArray vs # st)
          (newline_indent lvl @ (iterencode_dict fr dct lvl @ ?tail))"
    by (simp add: is_ws_def)
  also have "\<dots> = run py (Value, InArray vs # st) (iterencode_dict fr dct lvl @ ?tail)"
    by (rule run_newline_indent) (simp add: skips_ws_def)
  also have "\<dots> = run py (After, InArray (dict_json fr dct # vs) # st) ?tail"
    using ok by (rule run_dict) (simp add: starts_value_def)
  also have "\<dots> = run py (After, InArray (rev (map (dict_json fr) lst) @ dict_json fr dct # vs) # st) rest"
    by (rule Cons.IH [OF oks])
  finally show ?case by simp
qed

lemma run_json_dump:
  assumes "numbers_ok py fr segments"
  shows "run py (Value, []) (json_dump fr segments) = Some (Done (segments_json fr segments), [])"
proof (cases segments)
  case Nil
  then show ?thesis
    by (simp add: json_dump_def iterencode_list_def segments_json_def is_ws_def begin_value_def)
next
  case (Cons dct lst)
  from assms have ok: "items_ok py fr dct" and oks: "numbers_ok py fr lst"
    by (simp_all add: numbers_ok_def Cons)
  let ?tail = "iterencode_elems fr 1 ('','' @ newline_indent 1) lst @ (newline_indent 0 @ '']'')"
  have "run py (Value, []) (json_dump fr segments)
      = run py (Value, []) (CHR ''['' # newline_indent 1 @ (iterencode_dict fr dct 1 @ ?tail))"
    by (simp add: json_dump_def iterencode_list_def Cons)
  also have "\<dots> = run py (ValueOrEnd, [InArray []]) (newline_indent 1 @ (iterencode_dict fr dct 1 @ ?tail))"
    by (simp add: is_ws_def begin_value_def)
  also have "\<dots> = run py (ValueOrEnd, [InArray []]) (iterencode_dict fr dct 1 @ ?tail)"
    by (rule run_newline_indent) (simp add: skips_ws_def)
  also have "\<dots> = run py (After, [InArray [dict_json fr dct]]) ?tail"
    using ok by (rule run_dict) (simp add: starts_value_def)
  also have "\<dots> = run py (After, [InArray (rev (map (dict_json fr) lst) @ [dict_json fr dct])])
          (newline_indent 0 @ '']'')"
    by (rule run_elems [OF oks])
  also have "\<dots> = run py (After, [InArray (rev (map (dict_json fr) lst) @ [dict_json fr dct])]) '']''"
    by (rule run_newline_indent) (simp add: skips_ws_def)
  also have "\<dots> = Some (Done (segments_json fr segments), [])"
    by (simp add: is_ws_def segments_json_def Cons)
  finally show ?thesis .
qed

lemma loads_json_dump:
  "numbers_ok py fr segments \<Longrightarrow> loads py (json_dump fr segments) = Some (segments_json fr segments)"
  by (simp add: loads_def run_json_dump)

subsection \<open>No proper prefix of the text is a document\<close>














subsection \<open>The text is ASCII\<close>

lemma ascii_simps [simp]:
  "ascii []" "ascii (c # s) \<longleftrightarrow> (of_char c :: nat) < 128 \<and> ascii s"
  "ascii (s @ t) \<longleftrightarrow> ascii s \<and> ascii t"
  by (simp_all add: ascii_def)

lemma ascii_concat: "ascii (concat xs) \<longleftrightarrow> list_all ascii xs"
  by (induction xs) simp_all

lemma ascii_digits: "list_all (\<lambda>d. (of_char (digit_char d) :: nat) < 128) [0..<16]"
  by code_simp

lemma ascii_digit_char: "d < 16 \<Longrightarrow> (of_char (digit_char d) :: nat) < 128"
  using ascii_digits by (simp add: list_all_iff)

lemma ascii_escape_char: "ascii (escape_char c)"
  by (simp add: escape_char_def hex4_def ascii_digit_char)

lemma ascii_string: "ascii (py_encode_basestring_ascii s)"
  by (simp add: py_encode_basestring_ascii_def ascii_concat list_all_iff ascii_escape_char)

lemma ascii_num_step: "num_step q c = Some q' \<Longrightarrow> (of_char c :: nat) < 128"
  by (cases q) (auto simp: is_digit_def split: if_splits)

lemma ascii_num_run: "num_run q cs = Some q' \<Longrightarrow> ascii cs"
  by (induction cs arbitrary: q) (auto split: option.splits dest: ascii_num_step)

lemma ascii_number: "json_number s \<Longrightarrow> ascii s"
  by (auto simp: json_number_def num_start_def is_digit_def
      split: list.splits option.splits if_splits dest: ascii_num_run)

lemma ascii_newline_indent: "ascii (newline_indent level)"
  by (induction level) (simp_all add: newline_indent_def)

lemma ascii_float_text: "float_text py t \<Longrightarrow> ascii t"
  by (auto simp: float_text_def ascii_number)

lemma ascii_value: "number_ok py fr v \<Longrightarrow> ascii (encode_value fr v)"
  by (cases v) (simp_all add: ascii_string ascii_float_text)

lemma ascii_items: "items_ok py fr items \<Longrightarrow> ascii (iterencode_items fr lvl first items)"
  by (induction items arbitrary: first)
    (auto simp: items_ok_def ascii_string ascii_value ascii_newline_indent)

lemma ascii_dict: "items_ok py fr dct \<Longrightarrow> ascii (iterencode_dict fr dct lvl)"
  by (simp add: iterencode_dict_def ascii_items ascii_newline_indent)

lemma ascii_elems:
  "numbers_ok py fr lst \<Longrightarrow> ascii buf \<Longrightarrow> ascii (iterencode_elems fr lvl buf lst)"
  by (induction lst arbitrary: buf) (auto simp: numbers_ok_def ascii_dict ascii_newline_indent)

lemma ascii_json_dump: "numbers_ok py fr segments \<Longrightarrow> ascii (json_dump fr segments)"
  by (simp add: json_dump_def iterencode_list_def ascii_elems ascii_newline_indent)

subsection \<open>The layout of the text\<close>

lemma join_Cons_map:
  "join sep (y # map f xs) = y @ concat (map (\<lambda>z. sep @ f z) xs)"
  by (induction xs arbitrary: y) simp_all

lemma newline_indent_replicate:
  "newline_indent level = CHR 0x0A # replicate (2 * level) CHR '' ''"
  by (induction level) (simp_all add: newline_indent_def)

lemma indented_Cons:
  "indented depth opening closing (x # xs)
     = [opening] @ newline_indent (Suc depth) @ x
       @ concat (map (\<lambda>e. '','' @ newline_indent (Suc depth) @ e) xs)
       @ newline_indent depth @ [closing]"
  by (simp add: indented_def join_Cons_map newline_indent_replicate del: join.simps)

lemma iterencode_items_rest:
  "iterencode_items fr lvl False items
     = concat (map (\<lambda>item. '','' @ newline_indent lvl @ member_text fr item) items)"
  by (induction items) (auto simp: member_text_def)

lemma iterencode_dict_indented:
  "iterencode_dict fr dct lvl = indented lvl CHR ''{'' CHR ''}'' (map (member_text fr) dct)"
proof (cases dct)
  case Nil
  then show ?thesis by (simp add: iterencode_dict_def indented_def)
next
  case (Cons item items)
  obtain key v where item: "item = (key, v)"
    by (cases item)
  show ?thesis
    unfolding Cons list.map indented_Cons
    by (simp add: iterencode_dict_def iterencode_items_rest item member_text_def comp_def)
qed

lemma iterencode_elems_rest:
  "iterencode_elems fr lvl (CHR '','' # newline_indent lvl) lst
     = concat (map (\<lambda>dct. '','' @ newline_indent lvl @ iterencode_dict fr dct lvl) lst)"
  by (induction lst) auto

lemma json_dump_indented: "json_dump fr segments = indented_array fr segments"
proof (cases segments)
  case Nil
  then show ?thesis
    by (simp add: json_dump_def iterencode_list_def indented_array_def indented_def)
next
  case (Cons dct lst)
  show ?thesis
    unfolding Cons indented_array_def list.map indented_Cons
    by (simp add: json_dump_def iterencode_list_def iterencode_elems_rest comp_def
        iterencode_dict_indented [symmetric])
qed

subsection \<open>The two readers\<close>











subsection \<open>Reading the segments back\<close>

lemma py_str_of_char: "py_str (map of_char s) = Some s"
  by (simp add: py_str_def list_all_iff comp_def)

lemma to_pyval_val_json:
  "(case v of PyFloat x \<Rightarrow> parse_float (fr x) = Some x | PyStr s \<Rightarrow> True) \<Longrightarrow>
   to_pyval parse_float (val_json fr v) = Some v"
  by (cases v) (simp_all add: py_str_of_char)

lemma to_segment_dict_json:
  "list_all (\<lambda>item. case snd item of PyFloat x \<Rightarrow> parse_float (fr x) = Some x | PyStr s \<Rightarrow> True) dct \<Longrightarrow>
   to_segment parse_float (dict_json fr dct) = Some dct"
proof -
  assume ok: "list_all (\<lambda>item. case snd item of PyFloat x \<Rightarrow> parse_float (fr x) = Some x | PyStr s \<Rightarrow> True) dct"
  have "all_some (map (\<lambda>(k, v). case (py_str k, to_pyval parse_float v) of
                               (Some k', Some v') \<Rightarrow> Some (k', v')
                             | _ \<Rightarrow> None) (map (item_json fr) dct)) = Some dct"
    using ok
  proof (induction dct)
    case Nil
    show ?case by simp
  next
    case (Cons item dct)
    obtain k v where item: "item = (k, v)"
      by (cases item)
    from Cons.prems have v: "case v of PyFloat x \<Rightarrow> parse_float (fr x) = Some x | PyStr s \<Rightarrow> True"
      and rest: "list_all (\<lambda>item. case snd item of PyFloat x \<Rightarrow> parse_float (fr x) = Some x | PyStr s \<Rightarrow> True) dct"
      by (simp_all add: item)
    show ?case
      using Cons.IH [OF rest] to_pyval_val_json [OF v]
      by (simp add: item item_json_def py_str_of_char)
  qed
  then show ?thesis by (simp add: dict_json_def)
qed

lemma to_segments_segments_json:
  "floats_read_back fr parse_float segments \<Longrightarrow>
   to_segments parse_float (segments_json fr segments) = Some segments"
proof -
  assume "floats_read_back fr parse_float segments"
  then have "all_some (map (to_segment parse_float) (map (dict_json fr) segments)) = Some segments"
    by (induction segments) (simp_all add: floats_read_back_def to_segment_dict_json)
  then show ?thesis by (simp add: segments_json_def)
qed

lemma strict_loads_json_dump:
  "numbers_ok False fr segments \<Longrightarrow>
   strict_loads (json_dump fr segments) = Some (segments_json fr segments)"
  by (simp add: strict_loads_def loads_json_dump)

lemma json_loads_json_dump:
  "numbers_ok True fr segments \<Longrightarrow>
   json_loads (json_dump fr segments) = Some (segments_json fr segments)"
  by (simp add: json_loads_def loads_json_dump)

lemma json_load_json_dump:
  "numbers_ok True fr segments \<Longrightarrow> floats_read_back fr parse_float segments \<Longrightarrow>
   json_load parse_float (json_dump fr segments) = Some segments"
  by (simp add: json_load_def json_loads_json_dump to_segments_segments_json)

lemma numbers_ok_collect: "finite_tracks fr ts \<Longrightarrow> numbers_ok py fr (collect ts [])"
  by (induction ts)
    (auto simp: finite_tracks_def numbers_ok_def items_ok_def collect_append speaker_segment_def
      float_text_def)

lemma float_numbers_ok_collect: "float_tracks fr ts \<Longrightarrow> numbers_ok True fr (collect ts [])"
  by (induction ts)
    (auto simp: float_tracks_def numbers_ok_def items_ok_def collect_append speaker_segment_def)

lemma float_tracks_floatstr:
  assumes "\<And>x. json_number (repr x)"
  shows "float_tracks (json_floatstr repr) tracks"
proof -
  have "float_text True (json_floatstr repr x)" for x
    using assms by (cases x) (simp_all add: float_text_def)
  then show ?thesis
    by (simp add: float_tracks_def list_all_iff)
qed

lemma finite_float_tracks: "finite_tracks fr ts \<Longrightarrow> float_tracks fr ts"
  by (induction ts) (auto simp: finite_tracks_def float_tracks_def float_text_def)

lemma segments_json_collect:
  "segments_json fr (collect ts []) =
     JArray (map (\<lambda>(turn, track, label).
        JObject [(map of_char ''start'', JNumber (fr (turn_start turn))),
                 (map of_char ''end'', JNumber (fr (turn_end turn))),
                 (map of_char ''speaker'', JString (map of_char (''SPEAKER_'' @ label)))]) ts)"
  by (simp add: segments_json_def collect_append dict_json_def item_json_def speaker_segment_def
      comp_def split_def)

subsection \<open>The outcomes of a run\<close>





lemma stub_text_facts:
  "tenths_repr 0 = ''0.0''" "tenths_repr 12 = ''1.2''" "tenths_repr 34 = ''3.4''"
  by (simp_all add: tenths_repr_def str_nat.simps digit_char_def)

lemma stub_numbers:
  "json_number ''0.0''" "json_number ''1.2''" "json_number ''3.4''"
  by (simp_all add: json_number_def num_start_def is_digit_def)

lemma stub_finite: "finite_tracks tenths_repr stub_tracks"
  by (simp add: finite_tracks_def stub_tracks_def stub_text_facts stub_numbers)

lemma stub_read_back: "floats_read_back tenths_repr stub_parse_float (collect stub_tracks [])"
  by (simp add: floats_read_back_def stub_tracks_def speaker_segment_def stub_text_facts
      stub_parse_float_def)


lemma unbounded_not_json:
  "strict_loads (json_dump (json_floatstr tenths_repr) (collect unbounded_tracks [])) = None"
  by (simp add: strict_loads_def loads_def json_dump_def iterencode_list_def iterencode_dict_def
      unbounded_tracks_def speaker_segment_def newline_indent_def py_encode_basestring_ascii_def
      escape_char_def tenths_repr_def str_nat.simps digit_char_def is_ws_def begin_value_def
      num_start_def is_digit_def unescape_def)

lemma undefined_not_json:
  "strict_loads (json_dump (json_floatstr tenths_repr) (collect undefined_tracks [])) = None"
  by (simp add: strict_loads_def loads_def json_dump_def iterencode_list_def iterencode_dict_def
      undefined_tracks_def speaker_segment_def newline_indent_def py_encode_basestring_ascii_def
      escape_char_def tenths_repr_def str_nat.simps digit_char_def is_ws_def begin_value_def
      num_start_def is_digit_def unescape_def)

lemma float_world_run:
  "diarize_audio (float_world tracks) ''talk.wav'' ''out.json'' init_state =
     (Inr (),
      \<lparr>trace = [Print ''Starting diarization for talk.wav'',
                 FromPretrained model_name (Some ''hf_abc''),
                 CallPipeline ''talk.wav'', Itertracks, OpenWrite ''out.json'',
                 Print (''Diarization complete. Found '' @ str_nat (length (collect tracks []))
                        @ '' speaker segments.''),
                 Print ''Results saved to out.json''],
       files = [''out.json'' \<mapsto> json_dump (json_floatstr tenths_repr) (collect tracks [])]\<rparr>)"
  by (simp add: diarize_audio_def float_world_def write_json_def Let_def init_state_def emit_def)

lemma opened_files_preamble: "opened_files (preamble w audio) = []"
  by (simp add: opened_files_def preamble_def warning_lines_def)

lemma opened_files_append: "opened_files (a @ b) = opened_files a @ opened_files b"
  by (simp add: opened_files_def)

lemma success_events:
  assumes "diarize_audio w audio out s = (Inr u, s')"
  shows "opened_files (new_events s s') = [out]"
  using diarize_audio_success [OF assms]
  by (auto simp: new_events_def opened_files_def preamble_def warning_lines_def)

text \<open>
  Claim C6, amended.  When the start and end values are finite, so that their texts are
  JSON numbers, the text written by a completed run is valid JSON, and reading it back
  gives the list that was serialized: the same dictionaries in the same order, the same
  keys and strings, and each number read from the exact text that was written for it.
\<close>

theorem finite_segments_round_trip:
  assumes "diarize_audio w audio_file output_file s = (Inr (), s')"
    and "from_pretrained w model_name (environ w ''HUGGINGFACE_TOKEN'') = Inr pipeline"
    and "pipeline audio_file = Inr d"
    and "finite_tracks (float_repr w) (itertracks d)"
    and "floats_read_back (float_repr w) parse_float (collect (itertracks d) [])"
  shows "\<exists>content. files s' output_file = Some content
           \<and> valid_json content
           \<and> json_load parse_float content = Some (collect (itertracks d) [])"
proof -
  let ?content = "json_dump (float_repr w) (collect (itertracks d) [])"
  from diarize_audio_success [OF assms(1)] assms(2,3)
  have "files s' = (files s)(output_file \<mapsto> ?content)"
    by auto
  then have f: "files s' output_file = Some ?content"
    by simp
  have ok: "numbers_ok py (float_repr w) (collect (itertracks d) [])" for py
    using assms(4) by (rule numbers_ok_collect)
  have "valid_json ?content"
    by (simp add: valid_json_def strict_loads_json_dump [OF ok])
  moreover have "json_load parse_float ?content = Some (collect (itertracks d) [])"
    using ok assms(5) by (rule json_load_json_dump)
  ultimately show ?thesis
    using f by blast
qed

theorem finite_segments_round_trip_witness:
  "json_load stub_parse_float (json_dump tenths_repr (collect stub_tracks []))
     = Some [[(''start'', PyFloat 0), (''end'', PyFloat 12), (''speaker'', PyStr ''SPEAKER_A'')],
             [(''start'', PyFloat 12), (''end'', PyFloat 34), (''speaker'', PyStr ''SPEAKER_B'')]]
   \<and> valid_json (json_dump tenths_repr (collect stub_tracks []))
   \<and> files (snd (diarize_audio stub_world ''talk.wav'' ''out.json'' init_state)) ''out.json''
       = Some (json_dump tenths_repr (collect stub_tracks []))"
proof -
  define s' where "s' = snd (diarize_audio stub_world ''talk.wav'' ''out.json'' init_state)"
  have run: "diarize_audio stub_world ''talk.wav'' ''out.json'' init_state = (Inr (), s')"
    unfolding s'_def using stub_run by (metis prod.collapse)
  have p: "from_pretrained stub_world model_name (environ stub_world ''HUGGINGFACE_TOKEN'')
      = Inr stub_pipeline"
    by (simp add: stub_world_def)
  have d: "stub_pipeline ''talk.wav'' = Inr (Annotation stub_tracks None)"
    by (simp add: stub_pipeline_def)
  have fr: "float_repr stub_world = tenths_repr"
    by (simp add: stub_world_def)
  have fin: "finite_tracks (float_repr stub_world)
      (itertracks (Annotation stub_tracks None :: (string, nat, nat) annotation))"
    by (simp add: fr stub_finite)
  have rb: "floats_read_back (float_repr stub_world) stub_parse_float
      (collect (itertracks (Annotation stub_tracks None :: (string, nat, nat) annotation)) [])"
    by (simp add: fr stub_read_back)
  have segs: "collect stub_tracks [] =
      [[(''start'', PyFloat 0), (''end'', PyFloat 12), (''speaker'', PyStr ''SPEAKER_A'')],
       [(''start'', PyFloat 12), (''end'', PyFloat 34), (''speaker'', PyStr ''SPEAKER_B'')]]"
    by (simp add: stub_tracks_def speaker_segment_def)
  have f: "files s' ''out.json'' = Some (json_dump tenths_repr (collect stub_tracks []))"
    using diarize_audio_success [OF run] p d by (auto simp: fr)
  from finite_segments_round_trip [OF run p d fin rb] f show ?thesis
    by (auto simp: s'_def [symmetric] segs)
qed

text \<open>
  Claim C6 as stated fails when a value is not finite: for an interval that ends at
  infinity the run completes and writes a text with the name \<^verbatim>\<open>Infinity\<close> in it, which is
  not valid JSON.
\<close>

theorem infinite_end_counterexample:
  "fst (diarize_audio (float_world unbounded_tracks) ''talk.wav'' ''out.json'' init_state) = Inr ()
   \<and> files (snd (diarize_audio (float_world unbounded_tracks) ''talk.wav'' ''out.json'' init_state))
         ''out.json''
       = Some (json_dump (json_floatstr tenths_repr) (collect unbounded_tracks []))
   \<and> \<not> valid_json (json_dump (json_floatstr tenths_repr) (collect unbounded_tracks []))"
  by (simp add: float_world_run valid_json_def unbounded_not_json)

text \<open>
  Claim C7, amended.  A completed run opens exactly one file for writing, the output file,
  and changes no other; the file then holds a text laid out as a top-level array with two
  spaces of indentation per level.  When the start and end values are finite, this text is
  ASCII (so UTF-8) and JSON: it reads as an array with one object per yielded triple whose
  members are exactly \<^verbatim>\<open>start\<close> (a number), \<^verbatim>\<open>end\<close> (a number) and \<^verbatim>\<open>speaker\<close> (the string
  \<^verbatim>\<open>SPEAKER_\<close> followed by the label), in this order, and nothing else.
\<close>

theorem successful_run_writes_indented_array:
  assumes "diarize_audio w audio_file output_file s = (Inr (), s')"
    and "from_pretrained w model_name (environ w ''HUGGINGFACE_TOKEN'') = Inr pipeline"
    and "pipeline audio_file = Inr d"
  shows "opened_files (new_events s s') = [output_file]
       \<and> files s' = (files s)(output_file \<mapsto> indented_array (float_repr w) (collect (itertracks d) []))
       \<and> (finite_tracks (float_repr w) (itertracks d) \<longrightarrow>
            ascii (indented_array (float_repr w) (collect (itertracks d) []))
            \<and> strict_loads (indented_array (float_repr w) (collect (itertracks d) [])) =
                Some (JArray (map (\<lambda>(turn, track, label).
                   JObject [(map of_char ''start'', JNumber (float_repr w (turn_start turn))),
                            (map of_char ''end'', JNumber (float_repr w (turn_end turn))),
                            (map of_char ''speaker'', JString (map of_char (''SPEAKER_'' @ label)))])
                   (itertracks d))))"
proof -
  let ?segs = "collect (itertracks d) []"
  from diarize_audio_success [OF assms(1)] assms(2,3)
  have f: "files s' = (files s)(output_file \<mapsto> json_dump (float_repr w) ?segs)"
    by auto
  have "ascii (json_dump (float_repr w) ?segs)
      \<and> strict_loads (json_dump (float_repr w) ?segs) = Some (segments_json (float_repr w) ?segs)"
    if "finite_tracks (float_repr w) (itertracks d)"
  proof -
    have ok: "numbers_ok False (float_repr w) ?segs"
      using that by (rule numbers_ok_collect)
    then show ?thesis
      by (simp add: strict_loads_json_dump ascii_json_dump)
  qed
  then show ?thesis
    using success_events [OF assms(1)] f
    by (simp add: json_dump_indented segments_json_collect)
qed



lemma replicate_2_4: "replicate 2 x = [x, x]" "replicate 4 x = [x, x, x, x]"
  by (simp_all add: numeral_eq_Suc)

lemma stub_indented: "indented_array tenths_repr (collect stub_tracks []) = stub_output"
  by (simp add: indented_array_def indented_def member_text_def stub_tracks_def
      speaker_segment_def stub_text_facts py_encode_basestring_ascii_def escape_char_def
      stub_output_def quoted_def replicate_2_4)

theorem successful_run_writes_indented_array_witness:
  "opened_files (trace (snd (diarize_audio stub_world ''talk.wav'' ''out.json'' init_state)))
     = [''out.json'']
   \<and> files (snd (diarize_audio stub_world ''talk.wav'' ''out.json'' init_state))
       = [''out.json'' \<mapsto> stub_output]
   \<and> ascii stub_output
   \<and> strict_loads stub_output =
       Some (JArray
         [JObject [(map of_char ''start'', JNumber ''0.0''), (map of_char ''end'', JNumber ''1.2''),
                   (map of_char ''speaker'', JString (map of_char ''SPEAKER_A''))],
          JObject [(map of_char ''start'', JNumber ''1.2''), (map of_char ''end'', JNumber ''3.4''),
                   (map of_char ''speaker'', JString (map of_char ''SPEAKER_B''))]])"
proof -
  define s' where "s' = snd (diarize_audio stub_world ''talk.wav'' ''out.json'' init_state)"
  have run: "diarize_audio stub_world ''talk.wav'' ''out.json'' init_state = (Inr (), s')"
    unfolding s'_def using stub_run by (metis prod.collapse)
  have p: "from_pretrained stub_world model_name (environ stub_world ''HUGGINGFACE_TOKEN'')
      = Inr stub_pipeline"
    by (simp add: stub_world_def)
  have d: "stub_pipeline ''talk.wav'' = Inr (Annotation stub_tracks None)"
    by (simp add: stub_pipeline_def)
  have fr: "float_repr stub_world = tenths_repr"
    by (simp add: stub_world_def)
  have fin: "finite_tracks (float_repr stub_world)
      (itertracks (Annotation stub_tracks None :: (string, nat, nat) annotation))"
    by (simp add: fr stub_finite)
  have ev: "new_events init_state s' = trace s'" and fs: "files init_state = Map.empty"
    by (simp_all add: new_events_def init_state_def)
  have tr: "map (\<lambda>(turn, track, label).
              JObject [(map of_char ''start'', JNumber (tenths_repr (turn_start turn))),
                       (map of_char ''end'', JNumber (tenths_repr (turn_end turn))),
                       (map of_char ''speaker'', JString (map of_char (''SPEAKER_'' @ label)))])
              stub_tracks =
         [JObject [(map of_char ''start'', JNumber ''0.0''), (map of_char ''end'', JNumber ''1.2''),
                   (map of_char ''speaker'', JString (map of_char ''SPEAKER_A''))],
          JObject [(map of_char ''start'', JNumber ''1.2''), (map of_char ''end'', JNumber ''3.4''),
                   (map of_char ''speaker'', JString (map of_char ''SPEAKER_B''))]]"
    by (simp add: stub_tracks_def stub_text_facts)
  from successful_run_writes_indented_array [OF run p d] fin show ?thesis
    unfolding s'_def [symmetric] fr annotation.sel stub_indented ev fs tr
    by simp
qed

text \<open>
  Claim C7 as stated fails when a value is not a number: for an interval that starts at
  NaN the run completes and the file holds the name \<^verbatim>\<open>NaN\<close> where the number should be,
  so that it is not a JSON array.
\<close>

theorem nan_start_counterexample:
  "fst (diarize_audio (float_world undefined_tracks) ''talk.wav'' ''out.json'' init_state) = Inr ()
   \<and> files (snd (diarize_audio (float_world undefined_tracks) ''talk.wav'' ''out.json'' init_state))
         ''out.json''
       = Some (json_dump (json_floatstr tenths_repr) (collect undefined_tracks []))
   \<and> strict_loads (json_dump (json_floatstr tenths_repr) (collect undefined_tracks [])) = None"
  by (simp add: float_world_run undefined_not_json)



lemma json_get_speaker:
  "json_get (JObject [(map of_char ''start'', a), (map of_char ''end'', b),
                      (map of_char ''speaker'', c)]) ''speaker'' = Some c"
  by (simp add: json_get_def)

lemma stub_file:
  "files (snd (diarize_audio stub_world ''talk.wav'' ''out.json'' init_state)) ''out.json''
     = Some stub_output"
proof -
  let ?run = "diarize_audio stub_world ''talk.wav'' ''out.json'' init_state"
  have run: "?run = (Inr (), snd ?run)"
    using stub_run by (metis prod.collapse)
  have p: "from_pretrained stub_world model_name (environ stub_world ''HUGGINGFACE_TOKEN'')
      = Inr stub_pipeline"
    and fr: "float_repr stub_world = tenths_repr"
    by (simp_all add: stub_world_def)
  have d: "stub_pipeline ''talk.wav'' = Inr (Annotation stub_tracks None)"
    by (simp add: stub_pipeline_def)
  from diarize_audio_success [OF run] p d
  have "files (snd ?run) = (files init_state)(''out.json'' \<mapsto>
      json_dump tenths_repr (collect stub_tracks []))"
    by (auto simp: fr)
  then show ?thesis
    by (simp add: json_dump_indented stub_indented)
qed

lemma unbounded_below_float_tracks:
  "float_tracks (json_floatstr tenths_repr) unbounded_below_tracks"
  by (simp add: float_tracks_def unbounded_below_tracks_def float_text_def stub_text_facts
      stub_numbers)

text \<open>
  An interval that starts at minus infinity: the file holds \<^verbatim>\<open>-Infinity\<close>, and Python's
  reader finds the array with its one element in it.
\<close>

lemma unbounded_below_read_by_python:
  "json_loads (json_dump (json_floatstr tenths_repr) (collect unbounded_below_tracks []))
     = Some (JArray [JObject [(map of_char ''start'', JNumber ''-Infinity''),
                              (map of_char ''end'', JNumber ''1.2''),
                              (map of_char ''speaker'', JString (map of_char ''SPEAKER_A''))]])"
proof -
  have "segments_json (json_floatstr tenths_repr) (collect unbounded_below_tracks [])
      = JArray [JObject [(map of_char ''start'', JNumber ''-Infinity''),
                         (map of_char ''end'', JNumber ''1.2''),
                         (map of_char ''speaker'', JString (map of_char ''SPEAKER_A''))]]"
    unfolding segments_json_collect by (simp add: unbounded_below_tracks_def stub_text_facts)
  with json_loads_json_dump [OF float_numbers_ok_collect [OF unbounded_below_float_tracks]]
  show ?thesis
    by (simp only:)
qed

text \<open>
  Claim C2.  When the pipeline yields N triples, the file that a completed run leaves is
  read by Python's \<^verbatim>\<open>json.load\<close> as an array of exactly N elements; the i-th element is an
  object whose \<^verbatim>\<open>speaker\<close> member is the string \<^verbatim>\<open>SPEAKER_\<close> followed by the i-th label, so
  that every element's \<^verbatim>\<open>speaker\<close> starts with \<^verbatim>\<open>SPEAKER_\<close>.  The start and end values may be
  any floats, written as \<^verbatim>\<open>json.dump\<close> writes them; when all of them are finite, a reader
  that accepts JSON only finds the same array.
\<close>

theorem written_array_has_one_element_per_triple:
  fixes w :: "('e, 'f, 't) world"
  assumes "diarize_audio w audio_file output_file s = (Inr (), s')"
    and "from_pretrained w model_name (environ w ''HUGGINGFACE_TOKEN'') = Inr pipeline"
    and "pipeline audio_file = Inr d"
    and "length (itertracks d) = N"
    and "float_tracks (float_repr w) (itertracks d)"
  shows "\<exists>content elements.
           files s' output_file = Some content
           \<and> json_loads content = Some (JArray elements)
           \<and> length elements = N
           \<and> (\<forall>i<N. json_get (elements ! i) ''speaker''
                 = Some (JString (map of_char (''SPEAKER_'' @ snd (snd (itertracks d ! i))))))
           \<and> (\<forall>element \<in> set elements.
                 \<exists>v. json_get element ''speaker'' = Some (JString v)
                    \<and> prefix (map of_char ''SPEAKER_'') v)
           \<and> (finite_tracks (float_repr w) (itertracks d) \<longrightarrow>
                 strict_loads content = Some (JArray elements))"
proof -
  let ?content = "json_dump (float_repr w) (collect (itertracks d) [])"
  let ?object = "\<lambda>(turn :: 'f turn, track :: 't, label :: string).
       JObject [(map of_char ''start'', JNumber (float_repr w (turn_start turn))),
                (map of_char ''end'', JNumber (float_repr w (turn_end turn))),
                (map of_char ''speaker'', JString (map of_char (''SPEAKER_'' @ label)))]"
  let ?elements = "map ?object (itertracks d)"
  from diarize_audio_success [OF assms(1)] assms(2,3)
  have "files s' = (files s)(output_file \<mapsto> ?content)"
    by auto
  then have f: "files s' output_file = Some ?content"
    by simp
  have ok: "numbers_ok True (float_repr w) (collect (itertracks d) [])"
    using assms(5) by (rule float_numbers_ok_collect)
  have l: "json_loads ?content = Some (JArray ?elements)"
    by (simp only: json_loads_json_dump [OF ok] segments_json_collect)
  have st: "finite_tracks (float_repr w) (itertracks d) \<longrightarrow>
      strict_loads ?content = Some (JArray ?elements)"
  proof
    assume "finite_tracks (float_repr w) (itertracks d)"
    then have "numbers_ok False (float_repr w) (collect (itertracks d) [])"
      by (rule numbers_ok_collect)
    then show "strict_loads ?content = Some (JArray ?elements)"
      by (simp only: strict_loads_json_dump segments_json_collect)
  qed
  have n: "length ?elements = N"
    using assms(4) by simp
  have sp: "json_get (?object track) ''speaker''
      = Some (JString (map of_char (''SPEAKER_'' @ snd (snd track))))" for track
    by (cases track) (simp add: json_get_def)
  have ith: "\<forall>i<N. json_get (?elements ! i) ''speaker''
      = Some (JString (map of_char (''SPEAKER_'' @ snd (snd (itertracks d ! i)))))"
  proof (intro allI impI)
    fix i
    assume "i < N"
    with assms(4) have "i < length (itertracks d)"
      by simp
    then have "?elements ! i = ?object (itertracks d ! i)"
      by (rule nth_map)
    then show "json_get (?elements ! i) ''speaker''
        = Some (JString (map of_char (''SPEAKER_'' @ snd (snd (itertracks d ! i)))))"
      by (simp only: sp)
  qed
  have pre: "\<forall>element \<in> set ?elements.
      \<exists>v. json_get element ''speaker'' = Some (JString v) \<and> prefix (map of_char ''SPEAKER_'') v"
  proof
    fix element
    assume "element \<in> set ?elements"
    then have "element \<in> ?object ` set (itertracks d)"
      by (simp only: set_map)
    then obtain track where e: "element = ?object track"
      by (rule imageE)
    have pf: "prefix (map of_char ''SPEAKER_'')
        (map of_char (''SPEAKER_'' @ snd (snd track)) :: nat list)"
      by simp
    from sp [of track] e
    have g: "json_get element ''speaker''
        = Some (JString (map of_char (''SPEAKER_'' @ snd (snd track))))"
      by (simp only:)
    show "\<exists>v. json_get element ''speaker'' = Some (JString v) \<and> prefix (map of_char ''SPEAKER_'') v"
    proof (intro exI conjI)
      show "json_get element ''speaker''
          = Some (JString (map of_char (''SPEAKER_'' @ snd (snd track))))"
        by (fact g)
      show "prefix (map of_char ''SPEAKER_'')
          (map of_char (''SPEAKER_'' @ snd (snd track)) :: nat list)"
        by (fact pf)
    qed
  qed
  from f l n ith pre st show ?thesis
    by (intro exI conjI)
qed

theorem written_array_has_one_element_per_triple_witness:
  "files (snd (diarize_audio stub_world ''talk.wav'' ''out.json'' init_state)) ''out.json''
     = Some stub_output
   \<and> (\<exists>first second.
         json_loads stub_output = Some (JArray [first, second])
         \<and> strict_loads stub_output = Some (JArray [first, second])
         \<and> json_get first ''speaker'' = Some (JString (map of_char ''SPEAKER_A''))
         \<and> json_get second ''speaker'' = Some (JString (map of_char ''SPEAKER_B'')))"
proof -
  define s' where "s' = snd (diarize_audio stub_world ''talk.wav'' ''out.json'' init_state)"
  have run: "diarize_audio stub_world ''talk.wav'' ''out.json'' init_state = (Inr (), s')"
    unfolding s'_def using stub_run by (metis prod.collapse)
  have p: "from_pretrained stub_world model_name (environ stub_world ''HUGGINGFACE_TOKEN'')
      = Inr stub_pipeline"
    and fr: "float_repr stub_world = tenths_repr"
    by (simp_all add: stub_world_def)
  have d: "stub_pipeline ''talk.wav'' = Inr (Annotation stub_tracks None)"
    by (simp add: stub_pipeline_def)
  have n: "length (itertracks (Annotation stub_tracks None :: (string, nat, nat) annotation)) = 2"
    by (simp add: stub_tracks_def)
  have fin: "finite_tracks (float_repr stub_world)
      (itertracks (Annotation stub_tracks None :: (string, nat, nat) annotation))"
    by (simp add: fr stub_finite)
  have fl: "float_tracks (float_repr stub_world)
      (itertracks (Annotation stub_tracks None :: (string, nat, nat) annotation))"
    using fin by (rule finite_float_tracks)
  have labels: "snd (snd (stub_tracks ! 0)) = ''A''" "snd (snd (stub_tracks ! 1)) = ''B''"
    by (simp_all add: stub_tracks_def)
  from written_array_has_one_element_per_triple [OF run p d n fl]
  obtain content elements where
    c: "files s' ''out.json'' = Some content"
    and l: "json_loads content = Some (JArray elements)"
    and len: "length elements = 2"
    and ith: "\<forall>i<2. json_get (elements ! i) ''speaker''
        = Some (JString (map of_char (''SPEAKER_'' @ snd (snd (stub_tracks ! i)))))"
    and st: "finite_tracks (float_repr stub_world) stub_tracks \<longrightarrow>
        strict_loads content = Some (JArray elements)"
    unfolding annotation.sel by (elim exE conjE)
  from st fin have sl: "strict_loads content = Some (JArray elements)"
    by simp
  from c have content: "content = stub_output"
    unfolding s'_def stub_file by simp
  from len obtain first second where e: "elements = [first, second]"
    by (cases elements; cases "tl elements"; cases "tl (tl elements)") auto
  from ith have "json_get (elements ! 0) ''speaker''
        = Some (JString (map of_char (''SPEAKER_'' @ snd (snd (stub_tracks ! 0)))))"
    and "json_get (elements ! 1) ''speaker''
        = Some (JString (map of_char (''SPEAKER_'' @ snd (snd (stub_tracks ! 1)))))"
    by simp_all
  then have "json_get first ''speaker'' = Some (JString (map of_char ''SPEAKER_A''))"
    and "json_get second ''speaker'' = Some (JString (map of_char ''SPEAKER_B''))"
    unfolding labels e by simp_all
  with l sl show ?thesis
    unfolding content e using stub_file by (intro conjI exI)
qed

end
